theory Spec2Isabelle
  imports Main "HOL-Library.Word" "HOL-Library.Multiset"
begin

section \<open>scriptsort: a shallow embedding of \<^verbatim>\<open>scriptsort.c\<close>\<close>

text \<open>
  The program lists one directory, sorts the entries into three arrays and prints either
  their names, a shell snippet around their names, or the contents of the files.

  Conventions of the embedding.
  \<^item> A C string is a \<open>string\<close> (a list of 8-bit \<open>char\<close>s) without the terminating
    NUL. File names and command-line arguments come from the C runtime as C strings, so
    they hold no NUL byte; file contents are raw bytes and may hold one.
  \<^item> \<^verbatim>\<open>int\<close> and \<^verbatim>\<open>unsigned int\<close> are \<open>32 word\<close>: the bit pattern is the
    value, \<open>sint\<close> reads it as \<^verbatim>\<open>int\<close>, \<open>unat\<close> as \<^verbatim>\<open>unsigned int\<close>; \<open><\<close>
    and \<open>\<le>\<close> on words are the unsigned comparisons, \<open><s\<close> and \<open><=s\<close> the signed
    ones. \<^verbatim>\<open>int\<close> subtraction that overflows is undefined in C; the embedding takes
    the two's complement wrap-around that the subtraction instruction gives.
  \<^item> \<^verbatim>\<open>long\<close> is 64 bits wide and \<^verbatim>\<open>size_t\<close> is an unsigned 64-bit integer (LP64,
    the data model of the POSIX systems the program is written for). A \<^verbatim>\<open>size_t\<close> is a
    \<open>nat\<close> with the reduction modulo \<open>2 ^ 64\<close> written where the C arithmetic wraps.
  \<^item> The functions of the C library that the program calls (\<^verbatim>\<open>strtol\<close>, \<^verbatim>\<open>atoi\<close>,
    \<^verbatim>\<open>strcmp\<close>, \<^verbatim>\<open>tolower\<close>, \<^verbatim>\<open>strcat\<close>) are modelled from their ISO C contract in
    the "C" locale, and \<^verbatim>\<open>qsort\<close> from the algorithm of the GNU C library.
\<close>

subsection \<open>Constants\<close>

definition MAX_FILES :: nat where
  "MAX_FILES = 1000"

definition MAX_FILENAME :: nat where
  "MAX_FILENAME = 256"

definition INITIAL_BUFFER_SIZE :: nat where
  "INITIAL_BUFFER_SIZE = 4096"

definition PATH_MAX :: nat where
  "PATH_MAX = 4096"

definition INT_MAX :: int where
  "INT_MAX = 2147483647"

definition LONG_MAX :: int where
  "LONG_MAX = 9223372036854775807"

definition LONG_MIN :: int where
  "LONG_MIN = - 9223372036854775808"

definition SIZE_MODULUS :: nat where
  "SIZE_MODULUS = 2 ^ 64"

definition EXIT_SUCCESS :: int where
  "EXIT_SUCCESS = 0"

definition EXIT_FAILURE :: int where
  "EXIT_FAILURE = 1"

definition NUL :: char where
  "NUL = CHR 0x00"

subsection \<open>Character classes and \<^verbatim>\<open>strtol\<close>\<close>

text \<open>\<^verbatim>\<open>isspace\<close> in the "C" locale: space, \<^verbatim>\<open>\t \n \v \f \r\<close>.\<close>

definition isspace :: "char \<Rightarrow> bool" where
  "isspace c = (c = CHR '' '' \<or> (9 \<le> (of_char c :: nat) \<and> (of_char c :: nat) \<le> 13))"

definition isdigit :: "char \<Rightarrow> bool" where
  "isdigit c = (48 \<le> (of_char c :: nat) \<and> (of_char c :: nat) \<le> 57)"

definition digit_value :: "char \<Rightarrow> int" where
  "digit_value c = int (of_char c) - 48"

text \<open>
  The digit loop of \<^verbatim>\<open>strtol\<close> in base 10: the value read so far, the number of
  digits consumed, the rest of the text.
\<close>

fun strtol_digits :: "int \<Rightarrow> nat \<Rightarrow> string \<Rightarrow> int \<times> nat" where
  "strtol_digits acc n [] = (acc, n)"
| "strtol_digits acc n (c # cs) =
     (if isdigit c then strtol_digits (acc * 10 + digit_value c) (Suc n) cs else (acc, n))"

text \<open>
  \<^verbatim>\<open>strtol(nptr, &endptr, 10)\<close>: skips white space, takes one optional sign, then the
  longest run of digits. The result is the pair of the value and of \<^verbatim>\<open>endptr - nptr\<close>.
  With no digit there, no conversion is performed: the value is 0 and \<^verbatim>\<open>endptr\<close> is
  \<^verbatim>\<open>nptr\<close>. A value out of the range of \<^verbatim>\<open>long\<close> is replaced by \<^verbatim>\<open>LONG_MAX\<close> or
  \<^verbatim>\<open>LONG_MIN\<close> (and \<^verbatim>\<open>errno\<close> is set, which the program never reads).
\<close>

definition strtol :: "string \<Rightarrow> int \<times> nat" where
  "strtol nptr =
     (let ws = takeWhile isspace nptr;
          s1 = dropWhile isspace nptr;
          neg = (s1 \<noteq> [] \<and> hd s1 = CHR ''-'');
          signed = (s1 \<noteq> [] \<and> (hd s1 = CHR ''-'' \<or> hd s1 = CHR ''+''));
          s2 = (if signed then tl s1 else s1);
          (v, n) = strtol_digits 0 0 s2
      in if n = 0 then (0, 0)
         else (if neg then max LONG_MIN (- v) else min LONG_MAX v,
               length ws + (if signed then 1 else 0) + n))"

text \<open>
  \<^verbatim>\<open>atoi(s)\<close> is \<^verbatim>\<open>(int) strtol(s, NULL, 10)\<close>; the conversion of a \<^verbatim>\<open>long\<close> outside
  the range of \<^verbatim>\<open>int\<close> keeps the low 32 bits.
\<close>

definition atoi :: "string \<Rightarrow> 32 word" where
  "atoi s = word_of_int (fst (strtol s))"

subsection \<open>The classifier: \<^verbatim>\<open>extract_order_number\<close>\<close>

text \<open>
  \<^verbatim>\<open>strncmp(filename, "ordered.", 8) != 0\<close> holds exactly when the first eight bytes
  are not that prefix (a shorter name differs at its terminating NUL).
  The result is an \<^verbatim>\<open>int\<close>: \<open>-1\<close> for "no order number".
\<close>

definition extract_order_number :: "string \<Rightarrow> 32 word" where
  "extract_order_number filename =
     (if take 8 filename \<noteq> ''ordered.'' then - 1
      else
        let (num, endoff) = strtol (drop 8 filename)
        in if endoff = 0 \<or> num < 0 \<or> num > INT_MAX then - 1
           else word_of_int num)"

subsection \<open>File entries and the comparators\<close>

record FileEntry =
  name :: string
  order_num :: "32 word"
  bytesize :: "32 word"

text \<open>
  \<^verbatim>\<open>strcmp\<close>: the sign of the result is that of the difference of the first two bytes
  that differ, read as \<^verbatim>\<open>unsigned char\<close>; the end of a string is its NUL byte, 0.
\<close>

fun strcmp :: "string \<Rightarrow> string \<Rightarrow> int" where
  "strcmp [] [] = 0"
| "strcmp [] (y # ys) = - int (of_char y)"
| "strcmp (x # xs) [] = int (of_char x)"
| "strcmp (x # xs) (y # ys) =
     (if x = y then strcmp xs ys else int (of_char x) - int (of_char y))"

definition compare_ordered_files :: "FileEntry \<Rightarrow> FileEntry \<Rightarrow> int" where
  "compare_ordered_files fa fb =
     (if order_num fa \<noteq> order_num fb then sint (order_num fa - order_num fb)
      else strcmp (name fa) (name fb))"

definition compare_unordered :: "FileEntry \<Rightarrow> FileEntry \<Rightarrow> int" where
  "compare_unordered fa fb =
     (if order_num fa \<noteq> order_num fb then sint (order_num fa - order_num fb)
      else strcmp (name fa) (name fb))"

text \<open>
  \<^verbatim>\<open>qsort\<close>. ISO C fixes its result only where the comparator is consistent (a total
  order of the elements): the array in ascending order. The comparators above are not
  consistent where their subtraction overflows, and there the result is that of the
  algorithm of the C library. The embedding is the algorithm of the GNU C library, its
  merge sort \<^verbatim>\<open>msort_with_tmp\<close>: an array of \<open>n > 1\<close> elements is cut into its first
  \<open>n / 2\<close> elements and the rest, the two runs are sorted by the same procedure and then
  merged, the merge taking the head of the first run when the comparator returns a value
  \<open>\<le> 0\<close> for the two heads and the head of the second run otherwise.
  (Its temporary array is taken to be available; with a consistent comparator every
  sorting algorithm gives the same array up to the order of elements that compare equal.)
\<close>

fun qsort_merge :: "('a \<Rightarrow> 'a \<Rightarrow> int) \<Rightarrow> 'a list \<Rightarrow> 'a list \<Rightarrow> 'a list" where
  "qsort_merge cmp [] b2 = b2"
| "qsort_merge cmp (x # b1) [] = x # b1"
| "qsort_merge cmp (x # b1) (y # b2) =
     (if cmp x y \<le> 0 then x # qsort_merge cmp b1 (y # b2)
      else y # qsort_merge cmp (x # b1) b2)"

fun msort_with_tmp :: "('a \<Rightarrow> 'a \<Rightarrow> int) \<Rightarrow> 'a list \<Rightarrow> 'a list" where
  "msort_with_tmp cmp b =
     (if length b \<le> 1 then b
      else qsort_merge cmp (msort_with_tmp cmp (take (length b div 2) b))
             (msort_with_tmp cmp (drop (length b div 2) b)))"

declare msort_with_tmp.simps [simp del]

definition qsort :: "('a \<Rightarrow> 'a \<Rightarrow> int) \<Rightarrow> 'a list \<Rightarrow> 'a list" where
  "qsort cmp xs = msort_with_tmp cmp xs"

subsection \<open>The command line\<close>

text \<open>\<^verbatim>\<open>toupper\<close> and \<^verbatim>\<open>tolower\<close> in the "C" locale change the 26 ASCII letters only.\<close>

definition toupper :: "char \<Rightarrow> char" where
  "toupper c =
     (if 97 \<le> (of_char c :: nat) \<and> (of_char c :: nat) \<le> 122
      then char_of ((of_char c :: nat) - 32) else c)"

definition tolower :: "char \<Rightarrow> char" where
  "tolower c =
     (if 65 \<le> (of_char c :: nat) \<and> (of_char c :: nat) \<le> 90
      then char_of ((of_char c :: nat) + 32) else c)"

text \<open>The last line of \<^verbatim>\<open>wal_stricmp\<close>, on the two bytes at which its loop stopped.\<close>

definition wal_result :: "char \<Rightarrow> char \<Rightarrow> int" where
  "wal_result ca cb =
     (if ca = cb then 0 else if (of_char ca :: nat) < of_char cb then - 1 else 1)"

text \<open>
  \<^verbatim>\<open>wal_stricmp\<close>: the loop folds one byte of each string and goes on while the two are
  equal and not NUL. The end of a list is the terminating NUL of the C string.
\<close>

fun wal_stricmp :: "string \<Rightarrow> string \<Rightarrow> int" where
  "wal_stricmp (x # xs) (y # ys) =
     (let ca = tolower (toupper x); cb = tolower (toupper y)
      in if ca = cb \<and> ca \<noteq> NUL then wal_stricmp xs ys else wal_result ca cb)"
| "wal_stricmp [] (y # ys) = wal_result (tolower (toupper NUL)) (tolower (toupper y))"
| "wal_stricmp (x # xs) [] = wal_result (tolower (toupper x)) (tolower (toupper NUL))"
| "wal_stricmp [] [] = wal_result (tolower (toupper NUL)) (tolower (toupper NUL))"

text \<open>
  The variables that the argument loop of \<^verbatim>\<open>main\<close> sets. (The C variable \<^verbatim>\<open>bundle\<close>
  is the field \<open>bundle_mode\<close>: its name is reserved in Isabelle.)
\<close>

record options =
  init :: bool
  bundle_mode :: bool
  debugtext :: bool
  cutoff_count :: "32 word"

definition default_options :: options where
  "default_options =
     \<lparr>init = False, bundle_mode = False, debugtext = False, cutoff_count = 50\<rparr>"

text \<open>
  The loop \<^verbatim>\<open>for (int i = 2; i < argc; i++)\<close> of \<^verbatim>\<open>main\<close>, on the arguments from
  \<^verbatim>\<open>argv[2]\<close> on. \<open>None\<close> is the \<^verbatim>\<open>return 1\<close> after the two lines about the cutoff;
  \<open>rest \<noteq> []\<close> is \<^verbatim>\<open>i + 1 < argc\<close>, and \<open>hd rest\<close> is \<^verbatim>\<open>argv[++i]\<close>.
\<close>

fun parse_arguments :: "options \<Rightarrow> string list \<Rightarrow> options option" where
  "parse_arguments opts [] = Some opts"
| "parse_arguments opts (a # rest) =
     (if wal_stricmp a ''--init'' = 0 then parse_arguments (opts\<lparr>init := True\<rparr>) rest
      else if wal_stricmp a ''--bundle'' = 0 then
        parse_arguments (opts\<lparr>bundle_mode := True\<rparr>) rest
      else if wal_stricmp a ''--debug'' = 0 then
        parse_arguments (opts\<lparr>debugtext := True\<rparr>) rest
      else if wal_stricmp a ''--cutoff'' = 0 \<and> rest \<noteq> [] then
        (let count = atoi (hd rest)
         in if count <=s 0 then None
            else parse_arguments (opts\<lparr>cutoff_count := count\<rparr>) (tl rest))
      else parse_arguments opts rest)"

definition cutoff_message :: string where
  "cutoff_message =
     ''The cutoff number defaults to 50, but must be a number\<newline>'' @
     ''that is greater than 0 in number.\<newline>''"

subsection \<open>The outside world\<close>

text \<open>
  What the program reads from its environment, each call answered by a field:
  \<^item> \<open>readdir_names path\<close>: \<open>None\<close> when \<^verbatim>\<open>opendir\<close> fails, otherwise the names
    that \<^verbatim>\<open>readdir\<close> yields, in its order;
  \<^item> \<open>fopen_ok path\<close>, \<open>stat_size path\<close> (\<open>None\<close> when \<^verbatim>\<open>stat\<close> fails, otherwise
    \<^verbatim>\<open>st_size\<close>) and \<open>file_bytes path\<close>, the bytes that \<^verbatim>\<open>fread\<close> can deliver;
  \<^item> whether an allocation succeeds: the first \<^verbatim>\<open>malloc\<close> of the bundle buffer, a
    \<^verbatim>\<open>realloc\<close> to a new capacity (the capacity grows strictly, so it names the call), the
    \<^verbatim>\<open>malloc\<close> for the contents of the file at a path, the \<^verbatim>\<open>calloc\<close> of list mode.
\<close>

record env =
  readdir_names :: "string \<Rightarrow> string list option"
  fopen_ok :: "string \<Rightarrow> bool"
  stat_size :: "string \<Rightarrow> nat option"
  file_bytes :: "string \<Rightarrow> string"
  malloc_buffer_ok :: bool
  realloc_ok :: "nat \<Rightarrow> bool"
  malloc_contents_ok :: "string \<Rightarrow> bool"
  calloc_ok :: "nat \<Rightarrow> bool"

text \<open>
  One constructor for each message that the program writes to the standard error stream,
  with the arguments of its format (the text of \<^verbatim>\<open>strerror(errno)\<close> is left out):
  \<^item> \<open>Usage\<close>: \<^verbatim>\<open>print_usage\<close>, with the base name;
  \<^item> \<open>Error_opening_directory\<close>: \<^verbatim>\<open>"Error opening directory '%s': %s\n"\<close>;
  \<^item> \<open>Failed_to_allocate_initial_buffer\<close>: \<^verbatim>\<open>"Failed to allocate initial buffer\n"\<close>;
  \<^item> \<open>Cannot_allocate_buffer\<close>: \<^verbatim>\<open>"Cannot allocate buffer of %d byte(s)\n"\<close>;
  \<^item> \<open>Error_opening_file\<close>: \<^verbatim>\<open>"Error opening file '%s': %s\n"\<close>;
  \<^item> \<open>Error_getting_file_size\<close>: \<^verbatim>\<open>"Error getting file size for '%s': %s\n"\<close>;
  \<^item> \<open>Error_allocating_memory_for_file\<close>: \<^verbatim>\<open>"Error allocating memory for file '%s'\n"\<close>;
  \<^item> \<open>Error_reading_file\<close>: \<^verbatim>\<open>"Error reading file '%s': %s\n"\<close>;
  \<^item> \<open>Failed_to_reallocate_buffer\<close>: \<^verbatim>\<open>"Failed to reallocate buffer to size %zu\n"\<close>.
\<close>

datatype diagnostic =
    Usage string
  | Error_opening_directory string
  | Failed_to_allocate_initial_buffer
  | Cannot_allocate_buffer "32 word"
  | Error_opening_file string
  | Error_getting_file_size string
  | Error_allocating_memory_for_file string
  | Error_reading_file string
  | Failed_to_reallocate_buffer nat

text \<open>
  \<^verbatim>\<open>print_usage\<close> prints the part of the program name after its last \<^verbatim>\<open>/\<close> or
  backslash (\<^verbatim>\<open>find_last_path_separator\<close>), the whole name when it has neither.
\<close>

definition print_usage :: "string \<Rightarrow> diagnostic" where
  "print_usage program_name =
     Usage (rev (takeWhile (\<lambda>c. c \<noteq> CHR ''/'' \<and> c \<noteq> CHR 0x5C) (rev program_name)))"

subsection \<open>The scan of the directory\<close>

text \<open>
  The three arrays of \<^verbatim>\<open>main\<close> with their counts (an array and its count are the list of
  the entries stored so far), and the \<^verbatim>\<open>int\<close> variable \<^verbatim>\<open>bytesize\<close> of \<^verbatim>\<open>main\<close>.
\<close>

record partitions =
  lower_files :: "FileEntry list"
  upper_files :: "FileEntry list"
  unordered_files :: "FileEntry list"
  main_bytesize :: "32 word"

definition empty_partitions :: partitions where
  "empty_partitions =
     \<lparr>lower_files = [], upper_files = [], unordered_files = [], main_bytesize = 0\<rparr>"

text \<open>
  The body of the \<^verbatim>\<open>readdir\<close> loop for one name. In the two tests against
  \<^verbatim>\<open>cutoff_count\<close>, which is an \<^verbatim>\<open>unsigned int\<close>, C converts \<^verbatim>\<open>order_num\<close> to
  \<^verbatim>\<open>unsigned int\<close>: they are comparisons of the bit patterns, \<open><\<close> and \<open>\<le>\<close> on words;
  \<^verbatim>\<open>order_num >= 0\<close> is the signed one.
\<close>

definition scan_entry :: "32 word \<Rightarrow> partitions \<Rightarrow> string \<Rightarrow> partitions" where
  "scan_entry cutoff p d_name =
     (if d_name = ''.'' \<or> d_name = ''..'' then p
      else if take 5 d_name = ''skip.'' then p
      else
        let order = extract_order_number d_name;
            nm = take (MAX_FILENAME - 1) d_name;
            new_entry = \<lparr>name = nm, order_num = order, bytesize = of_nat (length nm)\<rparr>;
            p = p\<lparr>main_bytesize := main_bytesize p + (bytesize new_entry + 2)\<rparr>
        in if 0 <=s order \<and> order < cutoff then
             (if length (lower_files p) < MAX_FILES
              then p\<lparr>lower_files := lower_files p @ [new_entry]\<rparr> else p)
           else if cutoff \<le> order then
             (if length (upper_files p) < MAX_FILES
              then p\<lparr>upper_files := upper_files p @ [new_entry]\<rparr> else p)
           else
             (if length (unordered_files p) < MAX_FILES
              then p\<lparr>unordered_files := unordered_files p @ [new_entry]\<rparr> else p))"

definition scan_directory :: "32 word \<Rightarrow> string list \<Rightarrow> partitions" where
  "scan_directory cutoff names = foldl (scan_entry cutoff) empty_partitions names"

text \<open>The three \<^verbatim>\<open>qsort\<close> calls.\<close>

definition sort_partitions :: "partitions \<Rightarrow> partitions" where
  "sort_partitions p =
     p\<lparr>lower_files := qsort compare_ordered_files (lower_files p),
       upper_files := qsort compare_ordered_files (upper_files p),
       unordered_files := qsort compare_unordered (unordered_files p)\<rparr>"

subsection \<open>Reading one file\<close>

text \<open>
  \<^verbatim>\<open>read_file_contents\<close>: \<open>Inl\<close> is the message printed before \<^verbatim>\<open>return NULL\<close>,
  \<open>Inr\<close> the bytes read, whose number is what the function stores in \<^verbatim>\<open>*size\<close>.
  \<^verbatim>\<open>snprintf\<close> cuts the path to \<^verbatim>\<open>PATH_MAX - 1\<close> bytes; \<^verbatim>\<open>fread\<close> delivers at most
  \<^verbatim>\<open>st_size\<close> bytes of the file.
\<close>

definition read_file_contents :: "env \<Rightarrow> string \<Rightarrow> string \<Rightarrow> diagnostic + string" where
  "read_file_contents e directory filename =
     (let filepath = take (PATH_MAX - 1) (directory @ ''/'' @ filename)
      in if \<not> fopen_ok e filepath then Inl (Error_opening_file filepath)
         else case stat_size e filepath of
           None \<Rightarrow> Inl (Error_getting_file_size filepath)
         | Some st_size \<Rightarrow>
             if \<not> malloc_contents_ok e filepath
             then Inl (Error_allocating_memory_for_file filepath)
             else
               let contents = take st_size (file_bytes e filepath)
               in if length contents \<noteq> st_size then Inl (Error_reading_file filepath)
                  else Inr contents)"

subsection \<open>The growable buffer\<close>

text \<open>
  The loop \<^verbatim>\<open>while (new_capacity < needed_size) new_capacity *= 2;\<close> on \<^verbatim>\<open>size_t\<close>.
  The product wraps modulo \<open>2 ^ 64\<close>, and the loop need not end: \<open>None\<close> is "never
  returns".
\<close>

partial_function (option) grow_capacity :: "nat \<Rightarrow> nat \<Rightarrow> nat option" where
  "grow_capacity new_capacity needed_size =
     (if new_capacity < needed_size
      then grow_capacity (new_capacity * 2 mod SIZE_MODULUS) needed_size
      else Some new_capacity)"

declare grow_capacity.simps [code]

text \<open>
  \<^verbatim>\<open>ensure_buffer_capacity\<close>: \<open>None\<close> when the loop never ends; \<open>Some (Inl d)\<close> when
  \<^verbatim>\<open>realloc\<close> fails (message \<open>d\<close>, the buffer freed, \<^verbatim>\<open>NULL\<close> returned);
  \<open>Some (Inr c)\<close> when a buffer is returned, \<open>c\<close> being \<^verbatim>\<open>*current_capacity\<close> afterwards.
  \<^verbatim>\<open>realloc\<close> keeps the bytes of the buffer, so only the capacity is passed.
\<close>

definition ensure_buffer_capacity :: "env \<Rightarrow> nat \<Rightarrow> nat \<Rightarrow> (diagnostic + nat) option" where
  "ensure_buffer_capacity e current_capacity needed_size =
     (if needed_size > current_capacity then
        (case grow_capacity current_capacity needed_size of
           None \<Rightarrow> None
         | Some new_capacity \<Rightarrow>
             if \<not> realloc_ok e new_capacity
             then Some (Inl (Failed_to_reallocate_buffer new_capacity))
             else Some (Inr new_capacity))
      else Some (Inr current_capacity))"

text \<open>
  The bytes of the buffer are a list of cells from address 0 on: \<open>Some c\<close> is a byte that
  the program has written, \<open>None\<close> one it has not (\<^verbatim>\<open>malloc\<close> and \<^verbatim>\<open>realloc\<close> give
  indeterminate bytes); the cells after the end of the list are of the second kind.
\<close>

definition poke :: "char option list \<Rightarrow> nat \<Rightarrow> char \<Rightarrow> char option list" where
  "poke m i c = (m @ replicate (Suc i - length m) None)[i := Some c]"

fun write_bytes :: "char option list \<Rightarrow> nat \<Rightarrow> string \<Rightarrow> char option list" where
  "write_bytes m i [] = m"
| "write_bytes m i (c # cs) = write_bytes (poke m i c) (Suc i) cs"

text \<open>
  \<^verbatim>\<open>strcat(buffer + off, src)\<close>: finds the NUL that ends the string at \<open>off\<close> and
  copies there the bytes of \<open>src\<close> up to and with its first NUL (\<open>src\<close> is the contents
  of a file, followed in memory by the NUL that \<^verbatim>\<open>read_file_contents\<close> stores).
  \<^verbatim>\<open>printf("%s", buffer)\<close> prints the bytes before the first NUL: \<open>c_string\<close>.
\<close>

definition strcat_at :: "char option list \<Rightarrow> nat \<Rightarrow> string \<Rightarrow> char option list" where
  "strcat_at m off src =
     write_bytes m (off + length (takeWhile (\<lambda>c. c \<noteq> Some NUL) (drop off m)))
       (takeWhile (\<lambda>c. c \<noteq> NUL) src @ [NUL])"

definition c_string :: "char option list \<Rightarrow> string" where
  "c_string m = map the (takeWhile (\<lambda>c. c \<noteq> Some NUL) m)"

record bundle_state =
  buffer :: "char option list"
  buffer_capacity :: nat
  current_size :: nat

text \<open>After \<^verbatim>\<open>buffer = malloc(buffer_capacity); buffer[0] = '\0';\<close>\<close>

definition initial_bundle_state :: bundle_state where
  "initial_bundle_state =
     \<lparr>buffer = [Some NUL], buffer_capacity = INITIAL_BUFFER_SIZE, current_size = 0\<rparr>"

text \<open>
  The body of the three bundle loops of \<^verbatim>\<open>main\<close>, which are the same text over
  \<^verbatim>\<open>lower_files\<close>, \<^verbatim>\<open>unordered_files\<close> and \<^verbatim>\<open>upper_files\<close>, as one function over the
  entries of one array. The first component of the state is what has been written to the
  standard error stream. The result is \<open>None\<close> when \<^verbatim>\<open>ensure_buffer_capacity\<close> never
  returns, \<open>Some (errs, None)\<close> at \<^verbatim>\<open>return EXIT_FAILURE\<close>, and \<open>Some (errs, Some st)\<close>
  at the end of the loop.
\<close>

fun bundle_files ::
  "env \<Rightarrow> string \<Rightarrow> FileEntry list \<Rightarrow> diagnostic list \<times> bundle_state \<Rightarrow>
   (diagnostic list \<times> bundle_state option) option" where
  "bundle_files e directory [] (errs, st) = Some (errs, Some st)"
| "bundle_files e directory (f # fs) (errs, st) =
     (case read_file_contents e directory (name f) of
        Inl d \<Rightarrow> bundle_files e directory fs (errs @ [d], st)
      | Inr file_contents \<Rightarrow>
          (let file_size = length file_contents
           in case ensure_buffer_capacity e (buffer_capacity st)
                     ((current_size st + file_size + 2) mod SIZE_MODULUS) of
                None \<Rightarrow> None
              | Some (Inl d) \<Rightarrow> Some (errs @ [d], None)
              | Some (Inr capacity) \<Rightarrow>
                  let b1 = strcat_at (buffer st) (current_size st) file_contents;
                      size1 = (current_size st + file_size) mod SIZE_MODULUS;
                      b2 = poke b1 size1 CHR 0x0A;
                      size2 = (size1 + 1) mod SIZE_MODULUS;
                      b3 = poke b2 size2 NUL
                  in bundle_files e directory fs
                       (errs, \<lparr>buffer = b3, buffer_capacity = capacity,
                               current_size = size2\<rparr>)))"

text \<open>The three loops one after the other.\<close>

definition bundle_all ::
  "env \<Rightarrow> string \<Rightarrow> partitions \<Rightarrow> (diagnostic list \<times> bundle_state option) option" where
  "bundle_all e directory p =
     (case bundle_files e directory (lower_files p) ([], initial_bundle_state) of
        None \<Rightarrow> None
      | Some (errs, None) \<Rightarrow> Some (errs, None)
      | Some (errs, Some st) \<Rightarrow>
          (case bundle_files e directory (unordered_files p) (errs, st) of
             None \<Rightarrow> None
           | Some (errs, None) \<Rightarrow> Some (errs, None)
           | Some (errs, Some st) \<Rightarrow> bundle_files e directory (upper_files p) (errs, st)))"

definition timer_expression :: string where
  "timer_expression = ''$(command 2>&1 >/dev/null -v ms && ms || printf '0')''"

subsection \<open>The shell snippet of \<^verbatim>\<open>--init\<close>\<close>

definition backslash :: string where
  "backslash = [CHR 0x5C]"

text \<open>
  The format \<^verbatim>\<open>script\<close> of \<^verbatim>\<open>main\<close> with its six \<^verbatim>\<open>%s\<close> filled by \<^verbatim>\<open>buffer\<close>,
  \<^verbatim>\<open>timer\<close>, \<^verbatim>\<open>debugStart\<close>, \<^verbatim>\<open>timer\<close>, \<^verbatim>\<open>debugEnd\<close> and \<^verbatim>\<open>argv[1]\<close>.
\<close>

definition init_script :: "string \<Rightarrow> string \<Rightarrow> string \<Rightarrow> string \<Rightarrow> string \<Rightarrow> string" where
  \<open>init_script names timer debugStart debugEnd directory =
     ''pjoin() {\<newline>'' @
     ''  local -a parts\<newline>'' @
     ''\<newline>'' @
     ''  if [[ "${#}" -lt 1 ]]; then\<newline>'' @
     ''    printf "'' @ backslash @ ''x1b[1;35mpjoin'' @ backslash @
       ''x1b[22;39m <path> <part> ...'' @ backslash @ ''n'' @ backslash @ ''n"\<newline>'' @
     ''    printf "Example:'' @ backslash @ ''n"\<newline>'' @
     ''    printf "  pjoin '' @ backslash @ ''$HOME .zshrc'' @ backslash @ ''n"\<newline>'' @
     ''    printf "  '' @ backslash @ ''x1b[3m/Users/${USER}/.zshrc'' @ backslash @
       ''x1b[33m'' @ backslash @ ''n"\<newline>'' @
     ''    return 0\<newline>'' @
     ''  fi\<newline>'' @
     ''\<newline>'' @
     ''  for part in "${@}"; do\<newline>'' @
     ''    parts+=( "${part}" "/" )\<newline>'' @
     ''  done\<newline>'' @
     ''\<newline>'' @
     ''  printf "$(realpath $(printf "${parts// /}"))"\<newline>'' @
     ''}\<newline>'' @
     ''\<newline>'' @
     ''includeScripts() {\<newline>'' @
     ''  local -a scripts\<newline>'' @
     ''  local -a timings\<newline>'' @
     ''  local directory="${1:-${HOME}/.zsh.scripts}"\<newline>'' @
     ''  local scriptpath=""\<newline>'' @
     ''  local timer\<newline>'' @
     ''  local now\<newline>'' @
     ''  local elapsed\<newline>'' @
     ''\<newline>'' @
     ''  scripts=( '' @ names @ '' )\<newline>'' @
     ''  for script in "${scripts[@]}"; do\<newline>'' @
     ''    timer='' @ timer @ ''\<newline>'' @
     ''    scriptpath=$(pjoin "${directory}" "${script}")\<newline>'' @
     debugStart @
     ''    source "${scriptpath}"\<newline>'' @
     ''    if [ $timer ]; then\<newline>'' @
     ''      now='' @ timer @ ''\<newline>'' @
     ''      elapsed=$(($now-$timer))\<newline>'' @
     ''\<newline>'' @
     ''      timings+=( "${elapsed}ms:${scriptpath}" )\<newline>'' @
     ''    fi\<newline>'' @
     debugEnd @
     ''  done\<newline>'' @
     ''}\<newline>\<newline>'' @
     ''includeScripts "'' @ directory @ ''"\<newline>'' @
     ''unset -f includeScripts\<newline>''\<close>

definition debugStart :: "bool \<Rightarrow> string" where
  \<open>debugStart debug =
     (if debug
      then ''    printf "Sourcing '' @ backslash @ ''"${scriptpath}'' @ backslash @
           ''"..."\<newline>''
      else ''\<newline>'')\<close>

definition debugEnd :: "bool \<Rightarrow> string" where
  \<open>debugEnd debug =
     (if debug then ''    printf "done'' @ backslash @ ''n"\<newline>'' else [])\<close>

subsection \<open>\<^verbatim>\<open>main\<close>\<close>

text \<open>
  One of the three loops of list mode, \<^verbatim>\<open>sprintf(buffer, "%s%s%c", buffer, name, joiner)\<close>
  for each entry of an array. (The call passes \<^verbatim>\<open>buffer\<close> as destination and as source,
  which ISO C leaves undefined; the embedding takes the evident reading, that the name and
  the joiner are appended to the text in the buffer.)
\<close>

definition append_names :: "string \<Rightarrow> char \<Rightarrow> FileEntry list \<Rightarrow> string" where
  "append_names buf joiner files = foldl (\<lambda>b f. b @ name f @ [joiner]) buf files"

text \<open>
  What one run leaves behind: the exit status, the bytes written to the standard output,
  the messages written to the standard error stream, and whether \<^verbatim>\<open>opendir\<close> was called.
\<close>

record run_result =
  exit_status :: int
  stdout :: string
  stderr :: "diagnostic list"
  opendir_called :: bool

text \<open>
  \<^verbatim>\<open>main\<close>, on an environment and \<^verbatim>\<open>argv\<close> (with \<^verbatim>\<open>argc = length argv\<close>, at least 1:
  \<^verbatim>\<open>argv[0]\<close> is the name of the program). \<open>None\<close>: the run never ends.
  \<^verbatim>\<open>calloc(1, bytesize)\<close> receives the \<^verbatim>\<open>int\<close> converted to \<^verbatim>\<open>size_t\<close>.
\<close>

definition main :: "env \<Rightarrow> string list \<Rightarrow> run_result option" where
  "main e argv =
     (if length argv < 2 then
        Some \<lparr>exit_status = EXIT_FAILURE, stdout = [], stderr = [print_usage (argv ! 0)],
              opendir_called = False\<rparr>
      else case parse_arguments default_options (drop 2 argv) of
        None \<Rightarrow>
          Some \<lparr>exit_status = 1, stdout = cutoff_message, stderr = [],
                opendir_called = False\<rparr>
      | Some opts \<Rightarrow>
          (case readdir_names e (argv ! 1) of
             None \<Rightarrow>
               Some \<lparr>exit_status = EXIT_FAILURE, stdout = [],
                     stderr = [Error_opening_directory (argv ! 1)], opendir_called = True\<rparr>
           | Some names \<Rightarrow>
               let p = sort_partitions (scan_directory (cutoff_count opts) names)
               in if bundle_mode opts then
                    (if \<not> malloc_buffer_ok e then
                       Some \<lparr>exit_status = EXIT_FAILURE, stdout = [],
                             stderr = [Failed_to_allocate_initial_buffer],
                             opendir_called = True\<rparr>
                     else case bundle_all e (argv ! 1) p of
                       None \<Rightarrow> None
                     | Some (errs, None) \<Rightarrow>
                         Some \<lparr>exit_status = EXIT_FAILURE, stdout = [], stderr = errs,
                               opendir_called = True\<rparr>
                     | Some (errs, Some st) \<Rightarrow>
                         Some \<lparr>exit_status = EXIT_SUCCESS,
                               stdout =
                                 (if debugtext opts
                                  then ''local start_time='' @ timer_expression @ ''\<newline>''
                                  else []) @
                                 c_string (buffer st) @ ''\<newline>'' @
                                 (if debugtext opts
                                  then ''local end_time='' @ timer_expression @ ''\<newline>'' @
                                    ''export SCRIPTSORT_ELAPSED=$(($end_time - $start_time))\<newline>''
                                  else []),
                               stderr = errs, opendir_called = True\<rparr>)
                  else
                    (if \<not> calloc_ok e (nat (sint (main_bytesize p) mod int SIZE_MODULUS)) then
                       Some \<lparr>exit_status = EXIT_FAILURE, stdout = [],
                             stderr = [Cannot_allocate_buffer (main_bytesize p)],
                             opendir_called = True\<rparr>
                     else
                       let joiner = (if init opts then CHR '' '' else CHR 0x0A);
                           b1 = append_names [] joiner (lower_files p);
                           b2 = append_names b1 joiner (unordered_files p);
                           b3 = append_names b2 joiner (upper_files p)
                       in Some \<lparr>exit_status = EXIT_SUCCESS,
                                stdout =
                                  (if init opts
                                   then init_script b3 timer_expression
                                          (debugStart (debugtext opts))
                                          (debugEnd (debugtext opts)) (argv ! 1)
                                   else b3),
                                stderr = [], opendir_called = True\<rparr>)))"

section \<open>Example environments\<close>

text \<open>
  The directory of the usage text: \<^verbatim>\<open>ordered.01.first\<close>, \<^verbatim>\<open>fn.a\<close>, \<^verbatim>\<open>fn.b\<close> and
  \<^verbatim>\<open>ordered.52.last\<close>, listed by \<^verbatim>\<open>readdir\<close> in some other order together with
  \<^verbatim>\<open>.\<close>, \<^verbatim>\<open>..\<close> and a \<^verbatim>\<open>skip.tmp\<close>. Every file can be read and holds a comment
  with its own path; every allocation succeeds.
\<close>

definition scenario_env :: env where
  "scenario_env =
     \<lparr>readdir_names = (\<lambda>d. if d = ''scripts''
         then Some [''.'', ''ordered.52.last'', ''fn.b'', ''skip.tmp'', ''..'',
                    ''ordered.01.first'', ''fn.a'']
         else None),
      fopen_ok = (\<lambda>p. True),
      stat_size = (\<lambda>p. Some (length p + 2)),
      file_bytes = (\<lambda>p. ''# '' @ p),
      malloc_buffer_ok = True,
      realloc_ok = (\<lambda>n. True),
      malloc_contents_ok = (\<lambda>p. True),
      calloc_ok = (\<lambda>n. True)\<rparr>"

text \<open>The three arrays full: 1000 entries in each.\<close>

definition full_partitions :: partitions where
  "full_partitions =
     \<lparr>lower_files = replicate 1000 \<lparr>name = ''ordered.01.first'', order_num = 1, bytesize = 16\<rparr>,
      upper_files = replicate 1000 \<lparr>name = ''ordered.52.last'', order_num = 52, bytesize = 15\<rparr>,
      unordered_files = replicate 1000 \<lparr>name = ''fn.a'', order_num = - 1, bytesize = 4\<rparr>,
      main_bytesize = 0\<rparr>"

text \<open>The example directory with \<^verbatim>\<open>fn.b\<close> unreadable: \<^verbatim>\<open>fopen\<close> fails on it.\<close>

definition unreadable_env :: env where
  "unreadable_env = scenario_env\<lparr>fopen_ok := (\<lambda>p. p \<noteq> ''scripts/fn.b'')\<rparr>"




text \<open>
  A directory with the two entries \<^verbatim>\<open>ordered.2147483647\<close> and \<^verbatim>\<open>fn.a\<close>, which
  \<^verbatim>\<open>readdir\<close> yields in this order.
\<close>

definition largest_number_env :: env where
  "largest_number_env =
     scenario_env\<lparr>readdir_names := (\<lambda>d. Some [''ordered.2147483647'', ''fn.a''])\<rparr>"

text \<open>
  A directory with the two entries \<^verbatim>\<open>fn.a\<close> and \<^verbatim>\<open>fn.b\<close>, each file holding the three
  bytes \<^verbatim>\<open>a\<close>, NUL, \<^verbatim>\<open>b\<close>.
\<close>

definition nul_env :: env where
  "nul_env =
     scenario_env\<lparr>readdir_names := (\<lambda>d. Some [''fn.a'', ''fn.b'']),
                   stat_size := (\<lambda>p. Some 3),
                   file_bytes := (\<lambda>p. [CHR ''a'', CHR 0x00, CHR ''b''])\<rparr>"

section \<open>Notions of the specification\<close>

text \<open>
  The integer value of a run of decimal digits, most significant digit first (the
  \<^verbatim>\<open><digits>\<close> of a name \<^verbatim>\<open>ordered.<digits><rest>\<close>, the \<^verbatim>\<open>N\<close> of \<^verbatim>\<open>--cutoff N\<close>).
\<close>

definition decimal_value :: "string \<Rightarrow> int" where
  "decimal_value ds = foldl (\<lambda>v c. v * 10 + digit_value c) 0 ds"

text \<open>
  A text as \<^verbatim>\<open>strtol\<close> and \<^verbatim>\<open>atoi\<close> read it in base 10: white space \<open>ws\<close>, at most
  one sign \<open>sg\<close>, the longest run of digits \<open>ds\<close> (which may be empty), and the \<open>rest\<close>.
  Every text is cut into these four parts in exactly one way.
\<close>

definition numeral_text :: "string \<Rightarrow> string \<Rightarrow> string \<Rightarrow> string \<Rightarrow> bool" where
  "numeral_text ws sg ds rest =
     ((\<forall>c\<in>set ws. isspace c) \<and> (sg = [] \<or> sg = ''+'' \<or> sg = ''-'') \<and>
      (\<forall>c\<in>set ds. isdigit c) \<and> (rest = [] \<or> \<not> isdigit (hd rest)) \<and>
      (sg = [] \<and> ds = [] \<longrightarrow>
         rest = [] \<or> (\<not> isspace (hd rest) \<and> hd rest \<noteq> CHR ''-'' \<and> hd rest \<noteq> CHR ''+'')))"

text \<open>
  What \<^verbatim>\<open>wal_stricmp\<close> compares: the bytes of a C string before its NUL, with the ASCII
  letters in lower case.
\<close>

definition fold_string :: "string \<Rightarrow> string" where
  "fold_string s = map (\<lambda>c. tolower (toupper c)) (takeWhile (\<lambda>c. c \<noteq> NUL) s)"

text \<open>
  The contribution of the entries of one array to the bundle, in the words of the
  specification: the contents of each file that can be read, each followed by one newline,
  one after the other; a file that cannot be read contributes nothing.
\<close>

definition concat_readable :: "env \<Rightarrow> string \<Rightarrow> FileEntry list \<Rightarrow> string" where
  "concat_readable e directory files =
     concat (map (\<lambda>f. case read_file_contents e directory (name f) of
                         Inl d \<Rightarrow> []
                       | Inr contents \<Rightarrow> contents @ [CHR 0x0A]) files)"

text \<open>The messages about the files of one array that cannot be read, in their order.\<close>

definition read_diagnostics :: "env \<Rightarrow> string \<Rightarrow> FileEntry list \<Rightarrow> diagnostic list" where
  "read_diagnostics e directory files =
     concat (map (\<lambda>f. case read_file_contents e directory (name f) of
                         Inl d \<Rightarrow> [d]
                       | Inr contents \<Rightarrow> []) files)"


text \<open>
  The state of the bundle buffer between two files, \<open>out\<close> being the bytes appended so
  far: they are in the buffer, followed by a NUL, and none of them is a NUL; their number
  is \<^verbatim>\<open>current_size\<close>. And the capacity: the initial size times a power of two, with room
  for the bytes and the NUL.
\<close>

definition buffer_holds :: "string \<Rightarrow> bundle_state \<Rightarrow> bool" where
  "buffer_holds out st =
     (buffer st = map Some out @ [Some NUL] \<and> current_size st = length out \<and>
      NUL \<notin> set out)"

definition capacity_ok :: "bundle_state \<Rightarrow> bool" where
  "capacity_ok st =
     ((\<exists>j. buffer_capacity st = INITIAL_BUFFER_SIZE * 2 ^ j) \<and>
      current_size st + 1 \<le> buffer_capacity st)"

text \<open>
  The entries of a directory, in the order in which \<^verbatim>\<open>readdir\<close> yields the names: every
  name except \<^verbatim>\<open>.\<close>, \<^verbatim>\<open>..\<close> and those that start with \<^verbatim>\<open>skip.\<close>, with its order
  number.
\<close>

definition listed_entries :: "string list \<Rightarrow> FileEntry list" where
  "listed_entries names =
     map (\<lambda>d. \<lparr>name = take (MAX_FILENAME - 1) d, order_num = extract_order_number d,
               bytesize = of_nat (length (take (MAX_FILENAME - 1) d))\<rparr>)
       (filter (\<lambda>d. d \<noteq> ''.'' \<and> d \<noteq> ''..'' \<and> take 5 d \<noteq> ''skip.'') names)"

text \<open>
  The partition of an entry: 0 for \<^emph>\<open>low\<close> (an order number below the cutoff), 1 for
  \<^emph>\<open>unordered\<close> (no order number), 2 for \<^emph>\<open>high\<close> (an order number at or above the cutoff).
\<close>

definition partition_rank :: "32 word \<Rightarrow> FileEntry \<Rightarrow> nat" where
  "partition_rank cutoff f =
     (if order_num f = - 1 then 1 else if sint (order_num f) < uint cutoff then 0 else 2)"

text \<open>
  The order within a partition: the order number ascending, and for equal order numbers the
  names in ascending order of their bytes.
\<close>

definition key_before :: "FileEntry \<Rightarrow> FileEntry \<Rightarrow> bool" where
  "key_before a b =
     (sint (order_num a) < sint (order_num b) \<or>
      (order_num a = order_num b \<and> strcmp (name a) (name b) \<le> 0))"

text \<open>
  The order of the output: the partitions in the order low, unordered, high, and each
  partition in its order.
\<close>

definition listed_before :: "32 word \<Rightarrow> FileEntry \<Rightarrow> FileEntry \<Rightarrow> bool" where
  "listed_before cutoff a b =
     (partition_rank cutoff a < partition_rank cutoff b \<or>
      (partition_rank cutoff a = partition_rank cutoff b \<and> key_before a b))"

section \<open>Properties\<close>

subsection \<open>Order numbers\<close>

lemma sint_word_of_int_32:
  "0 \<le> n \<Longrightarrow> n \<le> INT_MAX \<Longrightarrow> sint (word_of_int n :: 32 word) = n"
  by (simp add: sint_sbintrunc' signed_take_bit_int_eq_self INT_MAX_def)

lemma extract_order_number_cases:
  "extract_order_number f = - 1 \<or> (0 <=s extract_order_number f)"
  by (auto simp: extract_order_number_def word_sle_eq sint_word_of_int_32 split: prod.splits)

subsection \<open>Where the scan stores an entry\<close>

lemma scan_entry_unordered:
  "unordered_files (scan_entry cutoff p d) = unordered_files p"
  using extract_order_number_cases [of d]
  by (auto simp: scan_entry_def Let_def)

lemma foldl_scan_unordered:
  "unordered_files (foldl (scan_entry cutoff) p names) = unordered_files p"
  by (induction names arbitrary: p) (simp_all add: scan_entry_unordered)

text \<open>
  Claim C1 says that an entry is stored in the unordered partition exactly when it has no
  order number, and in the high partition exactly when it has one that is at least the
  cutoff. The scan does otherwise: with the default cutoff 50 the name \<^verbatim>\<open>fn.a\<close>, which
  has no order number, is stored in \<^verbatim>\<open>upper_files\<close>, and for every cutoff and every
  directory \<^verbatim>\<open>unordered_files\<close> stays empty. The test \<^verbatim>\<open>order_num >= cutoff_count\<close>
  compares the \<^verbatim>\<open>int\<close> \<open>-1\<close> as the \<^verbatim>\<open>unsigned int\<close> \<open>4294967295\<close>.
\<close>

theorem C1_unordered_entry_stored_in_upper_files:
  "scan_directory 50 [''fn.a''] =
     \<lparr>lower_files = [],
      upper_files = [\<lparr>name = ''fn.a'', order_num = - 1, bytesize = 4\<rparr>],
      unordered_files = [], main_bytesize = 6\<rparr>
   \<and> unordered_files (scan_directory cutoff names) = []"
proof
  show "scan_directory 50 [''fn.a''] =
     \<lparr>lower_files = [],
      upper_files = [\<lparr>name = ''fn.a'', order_num = - 1, bytesize = 4\<rparr>],
      unordered_files = [], main_bytesize = 6\<rparr>"
    by (simp add: scan_directory_def scan_entry_def empty_partitions_def
        extract_order_number_def MAX_FILENAME_def MAX_FILES_def Let_def)
  show "unordered_files (scan_directory cutoff names) = []"
    by (simp add: scan_directory_def foldl_scan_unordered empty_partitions_def)
qed

subsection \<open>Evaluating the definitions\<close>

lemma unat_minus_one_32: "unat (- 1 :: 32 word) = 4294967295"
  by (simp add: unsigned_minus_1_eq_mask mask_eq_exp_minus_1)

lemmas word_eval = word_le_nat_alt word_less_nat_alt word_sle_eq word_sless_alt
  unat_minus_one_32

lemmas classify_eval = extract_order_number_def strtol_def isspace_def isdigit_def
  digit_value_def INT_MAX_def LONG_MAX_def LONG_MIN_def

lemmas scan_eval = scan_directory_def scan_entry_def empty_partitions_def
  MAX_FILENAME_def MAX_FILES_def Let_def

lemma msort_with_tmp_Nil: "msort_with_tmp cmp [] = []"
  by (simp add: msort_with_tmp.simps)

lemma msort_with_tmp_single: "msort_with_tmp cmp [x] = [x]"
  by (simp add: msort_with_tmp.simps)

lemma msort_with_tmp_many:
  "msort_with_tmp cmp (x # y # zs) =
     qsort_merge cmp (msort_with_tmp cmp (take (length (x # y # zs) div 2) (x # y # zs)))
       (msort_with_tmp cmp (drop (length (x # y # zs) div 2) (x # y # zs)))"
  by (subst msort_with_tmp.simps) simp

lemmas sort_eval = sort_partitions_def qsort_def compare_ordered_files_def
  compare_unordered_def
  msort_with_tmp_Nil msort_with_tmp_single msort_with_tmp_many

subsection \<open>The comparators at the largest order number\<close>

lemma order_difference_fits:
  fixes a b :: "32 word"
  assumes "- 1 \<le> sint a" and "- 1 \<le> sint b"
    and "\<not> (a = 2147483647 \<and> b = - 1)"
  shows "sint (a - b) = sint a - sint b"
proof -
  have ua: "sint a \<le> 2147483647" and ub: "sint b \<le> 2147483647"
    using sint_lt [of a] sint_lt [of b] by simp_all
  have "sint a \<noteq> 2147483647 \<or> sint b \<noteq> - 1"
  proof (rule ccontr)
    assume "\<not> (sint a \<noteq> 2147483647 \<or> sint b \<noteq> - 1)"
    then have "sint a = sint (2147483647 :: 32 word)" and "sint b = sint (- 1 :: 32 word)"
      by simp_all
    then have "a = 2147483647" and "b = - 1"
      by (simp_all only: signed_word_eqI)
    with assms(3) show False by simp
  qed
  with assms(1,2) ua ub
  have "- 2147483648 \<le> sint a - sint b" and "sint a - sint b < 2147483648"
    by arith+
  then have "signed_take_bit 31 (sint a - sint b) = sint a - sint b"
    by (simp add: signed_take_bit_int_eq_self)
  then show ?thesis
    by (simp add: sint_word_ariths)
qed

lemma compare_ordered_files_sign:
  assumes "- 1 \<le> sint (order_num fa)" and "- 1 \<le> sint (order_num fb)"
    and "\<not> (order_num fa = 2147483647 \<and> order_num fb = - 1)"
    and "order_num fa \<noteq> order_num fb"
  shows "compare_ordered_files fa fb = sint (order_num fa) - sint (order_num fb)"
    and "compare_unordered fa fb = sint (order_num fa) - sint (order_num fb)"
  using assms by (simp_all add: compare_ordered_files_def compare_unordered_def
      order_difference_fits)

text \<open>
  Claim C6 says that each comparator is a total order for every pair of order numbers that
  can occur, the absent number beside arbitrarily large ones included. The names
  \<^verbatim>\<open>ordered.2147483647\<close> and \<^verbatim>\<open>fn.a\<close> have the order numbers \<open>INT_MAX\<close> and
  \<open>-1\<close>. The comparators return their difference: \<open>INT_MAX - (-1)\<close> overflows and
  wraps to \<open>INT_MIN\<close>, so each of the two entries is reported to sort before the other.
\<close>

theorem C6_comparator_overflow:
  "extract_order_number ''ordered.2147483647'' = 2147483647
   \<and> extract_order_number ''fn.a'' = - 1
   \<and> compare_ordered_files
       \<lparr>name = ''ordered.2147483647'', order_num = 2147483647, bytesize = 18\<rparr>
       \<lparr>name = ''fn.a'', order_num = - 1, bytesize = 4\<rparr> = - 2147483648
   \<and> compare_ordered_files
       \<lparr>name = ''fn.a'', order_num = - 1, bytesize = 4\<rparr>
       \<lparr>name = ''ordered.2147483647'', order_num = 2147483647, bytesize = 18\<rparr>
         = - 2147483648
   \<and> compare_unordered
       \<lparr>name = ''ordered.2147483647'', order_num = 2147483647, bytesize = 18\<rparr>
       \<lparr>name = ''fn.a'', order_num = - 1, bytesize = 4\<rparr> = - 2147483648
   \<and> compare_unordered
       \<lparr>name = ''fn.a'', order_num = - 1, bytesize = 4\<rparr>
       \<lparr>name = ''ordered.2147483647'', order_num = 2147483647, bytesize = 18\<rparr>
         = - 2147483648"
  by (simp add: compare_ordered_files_def compare_unordered_def classify_eval)

text \<open>
  Where the comparator is not consistent the array that \<^verbatim>\<open>qsort\<close> leaves is that of the
  merge: of the four entries below, the two with the order numbers 60 and 70 come first, and
  \<^verbatim>\<open>ordered.2147483647\<close> stays in front of \<^verbatim>\<open>fn.a\<close>.
\<close>

lemma qsort_largest_beside_absent:
  "qsort compare_ordered_files
     [\<lparr>name = ''ordered.2147483647'', order_num = 2147483647, bytesize = 18\<rparr>,
      \<lparr>name = ''fn.a'', order_num = - 1, bytesize = 4\<rparr>,
      \<lparr>name = ''ordered.60'', order_num = 60, bytesize = 10\<rparr>,
      \<lparr>name = ''ordered.70'', order_num = 70, bytesize = 10\<rparr>] =
     [\<lparr>name = ''ordered.60'', order_num = 60, bytesize = 10\<rparr>,
      \<lparr>name = ''ordered.70'', order_num = 70, bytesize = 10\<rparr>,
      \<lparr>name = ''ordered.2147483647'', order_num = 2147483647, bytesize = 18\<rparr>,
      \<lparr>name = ''fn.a'', order_num = - 1, bytesize = 4\<rparr>]"
  by (simp add: sort_eval)

subsection \<open>The capacity of the three arrays\<close>

lemma scan_entry_lower:
  "lower_files (scan_entry cutoff p d) = lower_files p \<or>
   (length (lower_files p) < MAX_FILES \<and>
    lower_files (scan_entry cutoff p d) = lower_files p @
      [\<lparr>name = take (MAX_FILENAME - 1) d, order_num = extract_order_number d,
        bytesize = of_nat (length (take (MAX_FILENAME - 1) d))\<rparr>])"
  by (simp add: scan_entry_def Let_def)

lemma scan_entry_upper:
  "upper_files (scan_entry cutoff p d) = upper_files p \<or>
   (length (upper_files p) < MAX_FILES \<and>
    upper_files (scan_entry cutoff p d) = upper_files p @
      [\<lparr>name = take (MAX_FILENAME - 1) d, order_num = extract_order_number d,
        bytesize = of_nat (length (take (MAX_FILENAME - 1) d))\<rparr>])"
  by (simp add: scan_entry_def Let_def)

lemma scan_entry_length:
  "length (lower_files p) \<le> MAX_FILES \<Longrightarrow>
   length (lower_files (scan_entry cutoff p d)) \<le> MAX_FILES"
  "length (upper_files p) \<le> MAX_FILES \<Longrightarrow>
   length (upper_files (scan_entry cutoff p d)) \<le> MAX_FILES"
  using scan_entry_lower [of cutoff p d] scan_entry_upper [of cutoff p d] by auto

lemma foldl_scan_length:
  "length (lower_files p) \<le> MAX_FILES \<Longrightarrow>
   length (lower_files (foldl (scan_entry cutoff) p names)) \<le> MAX_FILES"
  "length (upper_files p) \<le> MAX_FILES \<Longrightarrow>
   length (upper_files (foldl (scan_entry cutoff) p names)) \<le> MAX_FILES"
  by (induction names arbitrary: p) (simp_all add: scan_entry_length)

lemma foldl_scan_extends:
  "\<exists>ys. lower_files (foldl (scan_entry cutoff) p names) = lower_files p @ ys"
  "\<exists>ys. upper_files (foldl (scan_entry cutoff) p names) = upper_files p @ ys"
proof (induction names arbitrary: p)
  case Nil
  { case 1 show ?case by simp }
  { case 2 show ?case by simp }
next
  case (Cons d names)
  { case 1
    from Cons(1) [of "scan_entry cutoff p d"] scan_entry_lower [of cutoff p d]
    show ?case by auto }
  { case 2
    from Cons(2) [of "scan_entry cutoff p d"] scan_entry_upper [of cutoff p d]
    show ?case by auto }
qed

lemma list_mode_success_silent:
  assumes "parse_arguments default_options args = Some opts" and "\<not> bundle_mode opts"
    and "main e (prog # dir # args) = Some r" and "exit_status r = EXIT_SUCCESS"
  shows "stderr r = []"
  using assms
  by (auto simp: main_def Let_def EXIT_SUCCESS_def EXIT_FAILURE_def
      split: option.splits if_splits)

text \<open>
  Claim C9. The capacity is 1000. After the scan of any directory each of the three arrays
  holds at most that many entries. A step of the scan leaves an array that is full as it
  is, whatever the name (and an array that is not full is left as it is or gets the new
  entry at its end, \<open>scan_entry_lower\<close> and \<open>scan_entry_upper\<close>); so the entries stored
  before any number of steps are still there, in their places, afterwards. The scan has no
  way to print: a run in list mode that ends with status 0 has written nothing to the
  standard error stream, however many entries the directory has.
\<close>

theorem C9_partition_capacity:
  "MAX_FILES = 1000
   \<and> length (lower_files (scan_directory cutoff names)) \<le> MAX_FILES
   \<and> length (upper_files (scan_directory cutoff names)) \<le> MAX_FILES
   \<and> length (unordered_files (scan_directory cutoff names)) \<le> MAX_FILES
   \<and> (MAX_FILES \<le> length (lower_files p) \<longrightarrow>
        lower_files (scan_entry cutoff p d) = lower_files p)
   \<and> (MAX_FILES \<le> length (upper_files p) \<longrightarrow>
        upper_files (scan_entry cutoff p d) = upper_files p)
   \<and> (MAX_FILES \<le> length (unordered_files p) \<longrightarrow>
        unordered_files (scan_entry cutoff p d) = unordered_files p)
   \<and> (\<exists>ys. lower_files (foldl (scan_entry cutoff) p names) = lower_files p @ ys)
   \<and> (\<exists>ys. upper_files (foldl (scan_entry cutoff) p names) = upper_files p @ ys)
   \<and> (\<exists>ys. unordered_files (foldl (scan_entry cutoff) p names) = unordered_files p @ ys)
   \<and> (parse_arguments default_options args = Some opts \<and> \<not> bundle_mode opts \<and>
        main e (prog # dir # args) = Some r \<and> exit_status r = EXIT_SUCCESS \<longrightarrow>
        stderr r = [])"
proof (intro conjI)
  show "MAX_FILES = 1000" by (simp add: MAX_FILES_def)
  show "length (lower_files (scan_directory cutoff names)) \<le> MAX_FILES"
    by (simp add: scan_directory_def foldl_scan_length empty_partitions_def)
  show "length (upper_files (scan_directory cutoff names)) \<le> MAX_FILES"
    by (simp add: scan_directory_def foldl_scan_length empty_partitions_def)
  show "length (unordered_files (scan_directory cutoff names)) \<le> MAX_FILES"
    by (simp add: scan_directory_def foldl_scan_unordered empty_partitions_def)
  show "MAX_FILES \<le> length (lower_files p) \<longrightarrow>
        lower_files (scan_entry cutoff p d) = lower_files p"
    using scan_entry_lower [of cutoff p d] by auto
  show "MAX_FILES \<le> length (upper_files p) \<longrightarrow>
        upper_files (scan_entry cutoff p d) = upper_files p"
    using scan_entry_upper [of cutoff p d] by auto
  show "MAX_FILES \<le> length (unordered_files p) \<longrightarrow>
        unordered_files (scan_entry cutoff p d) = unordered_files p"
    by (simp add: scan_entry_unordered)
  show "\<exists>ys. lower_files (foldl (scan_entry cutoff) p names) = lower_files p @ ys"
    by (rule foldl_scan_extends)
  show "\<exists>ys. upper_files (foldl (scan_entry cutoff) p names) = upper_files p @ ys"
    by (rule foldl_scan_extends)
  show "\<exists>ys. unordered_files (foldl (scan_entry cutoff) p names) = unordered_files p @ ys"
    by (simp add: foldl_scan_unordered)
  show "parse_arguments default_options args = Some opts \<and> \<not> bundle_mode opts \<and>
        main e (prog # dir # args) = Some r \<and> exit_status r = EXIT_SUCCESS \<longrightarrow>
        stderr r = []"
    using list_mode_success_silent by blast
qed

lemma scenario_list:
  "main scenario_env [''scriptsort'', ''scripts''] =
     Some \<lparr>exit_status = 0,
           stdout = ''ordered.01.first\<newline>fn.a\<newline>fn.b\<newline>ordered.52.last\<newline>'',
           stderr = [], opendir_called = True\<rparr>"
  by (simp add: main_def scenario_env_def default_options_def classify_eval scan_eval
      sort_eval word_eval append_names_def EXIT_SUCCESS_def)

theorem C9_partition_capacity_witness:
  "MAX_FILES \<le> length (lower_files full_partitions)
   \<and> lower_files (scan_entry 50 full_partitions ''ordered.07.setup'') =
       lower_files full_partitions
   \<and> MAX_FILES \<le> length (upper_files full_partitions)
   \<and> upper_files (scan_entry 50 full_partitions ''ordered.77.late'') =
       upper_files full_partitions
   \<and> MAX_FILES \<le> length (unordered_files full_partitions)
   \<and> unordered_files (scan_entry 50 full_partitions ''fn.a'') =
       unordered_files full_partitions
   \<and> parse_arguments default_options [] = Some default_options
   \<and> \<not> bundle_mode default_options
   \<and> main scenario_env [''scriptsort'', ''scripts''] =
       Some \<lparr>exit_status = 0,
           stdout = ''ordered.01.first\<newline>fn.a\<newline>fn.b\<newline>ordered.52.last\<newline>'',
           stderr = [], opendir_called = True\<rparr>
   \<and> exit_status \<lparr>exit_status = 0,
           stdout = ''ordered.01.first\<newline>fn.a\<newline>fn.b\<newline>ordered.52.last\<newline>'',
           stderr = [], opendir_called = True\<rparr> = EXIT_SUCCESS
   \<and> stderr \<lparr>exit_status = 0,
           stdout = ''ordered.01.first\<newline>fn.a\<newline>fn.b\<newline>ordered.52.last\<newline>'',
           stderr = [], opendir_called = True\<rparr> = []"
proof -
  have full:
    "MAX_FILES \<le> length (lower_files full_partitions)"
    "MAX_FILES \<le> length (upper_files full_partitions)"
    "MAX_FILES \<le> length (unordered_files full_partitions)"
    by (simp_all add: full_partitions_def MAX_FILES_def)
  have run: "parse_arguments default_options [] = Some default_options"
    "\<not> bundle_mode default_options"
    by (simp_all add: default_options_def)
  from C9_partition_capacity [of 50 "[]" full_partitions "''ordered.07.setup''"] full
  have 1: "lower_files (scan_entry 50 full_partitions ''ordered.07.setup'') =
       lower_files full_partitions"
    by blast
  from C9_partition_capacity [of 50 "[]" full_partitions "''ordered.77.late''"] full
  have 2: "upper_files (scan_entry 50 full_partitions ''ordered.77.late'') =
       upper_files full_partitions"
    by blast
  from C9_partition_capacity [of 50 "[]" full_partitions "''fn.a''"] full
  have 3: "unordered_files (scan_entry 50 full_partitions ''fn.a'') =
       unordered_files full_partitions"
    by blast
  show ?thesis
    using full run 1 2 3 scenario_list by (simp add: EXIT_SUCCESS_def)
qed

subsection \<open>Comparing without case\<close>

lemma fold_NUL [simp]: "tolower (toupper c) = NUL \<longleftrightarrow> c = NUL"
proof -
  have "(of_char (tolower (toupper c)) :: nat) = of_char NUL \<longleftrightarrow>
        (of_char c :: nat) = of_char NUL"
    by (auto simp: tolower_def toupper_def NUL_def)
  then show ?thesis by (simp only: of_char_eq_iff)
qed

lemma fold_NUL' [simp]:
  "tolower (toupper NUL) = NUL" "NUL = tolower (toupper c) \<longleftrightarrow> c = NUL"
  using fold_NUL [of c] fold_NUL [of NUL] by (simp, metis)

lemma wal_result_0 [simp]: "wal_result ca cb = 0 \<longleftrightarrow> ca = cb"
  by (simp add: wal_result_def)

lemma wal_stricmp_0_iff: "wal_stricmp a b = 0 \<longleftrightarrow> fold_string a = fold_string b"
  by (induction a b rule: wal_stricmp.induct) (auto simp: fold_string_def Let_def)

lemma bit_Suc_0_0: "bit (Suc 0) 0"
  by (simp add: bit_0)

lemmas ctype_eval = tolower_def toupper_def NUL_def char_of_def bit_Suc_0_0

lemma fold_flags:
  "fold_string ''--init'' = ''--init''"
  "fold_string ''--bundle'' = ''--bundle''"
  "fold_string ''--debug'' = ''--debug''"
  "fold_string ''--cutoff'' = ''--cutoff''"
  by (simp_all add: fold_string_def ctype_eval)

lemma cutoff_not_other:
  assumes "wal_stricmp a ''--cutoff'' = 0"
  shows "wal_stricmp a ''--init'' \<noteq> 0" "wal_stricmp a ''--bundle'' \<noteq> 0"
    "wal_stricmp a ''--debug'' \<noteq> 0"
  using assms by (simp_all add: wal_stricmp_0_iff fold_flags)

subsection \<open>\<^verbatim>\<open>strtol\<close> on a run of digits\<close>

lemma isdigit_not_space_sign:
  "isdigit c \<Longrightarrow> \<not> isspace c \<and> c \<noteq> CHR ''-'' \<and> c \<noteq> CHR ''+''"
  by (auto simp: isdigit_def isspace_def)

lemma digit_value_nonneg: "isdigit c \<Longrightarrow> 0 \<le> digit_value c"
  by (simp add: isdigit_def digit_value_def)

lemma strtol_digits_run:
  assumes "\<forall>c\<in>set ds. isdigit c" and "rest = [] \<or> \<not> isdigit (hd rest)"
  shows "strtol_digits acc n (ds @ rest) =
         (foldl (\<lambda>v c. v * 10 + digit_value c) acc ds, n + length ds)"
  using assms
proof (induction ds arbitrary: acc n)
  case Nil
  then show ?case by (cases rest) auto
next
  case (Cons d ds)
  then show ?case by simp
qed

lemma foldl_digits_nonneg:
  "\<forall>c\<in>set ds. isdigit c \<Longrightarrow> 0 \<le> acc \<Longrightarrow>
   0 \<le> foldl (\<lambda>v c. v * 10 + digit_value c) acc ds"
  by (induction ds arbitrary: acc) (simp_all add: digit_value_nonneg)

lemma decimal_value_nonneg: "\<forall>c\<in>set ds. isdigit c \<Longrightarrow> 0 \<le> decimal_value ds"
  by (simp add: decimal_value_def foldl_digits_nonneg)

lemma takeWhile_dropWhile_run:
  assumes "\<forall>c\<in>set ws. P c" and "t = [] \<or> \<not> P (hd t)"
  shows "takeWhile P (ws @ t) = ws" and "dropWhile P (ws @ t) = t"
proof -
  have "takeWhile P t = []" and "dropWhile P t = t"
    using assms(2) by (cases t; simp)+
  with assms(1) show "takeWhile P (ws @ t) = ws" and "dropWhile P (ws @ t) = t"
    by (simp_all add: takeWhile_append2 dropWhile_append2)
qed

lemma strtol_digits_stop:
  "s = [] \<or> \<not> isdigit (hd s) \<Longrightarrow> strtol_digits acc n s = (acc, n)"
  by (cases s) auto

lemma strtol_parts:
  assumes "numeral_text ws sg ds rest"
  shows "strtol (ws @ sg @ ds @ rest) =
         (if ds = [] then (0, 0)
          else (if sg = ''-'' then max LONG_MIN (- decimal_value ds)
                else min LONG_MAX (decimal_value ds),
                length ws + length sg + length ds))"
proof -
  let ?t = "sg @ ds @ rest"
  have ws: "\<forall>c\<in>set ws. isspace c" and sg: "sg = [] \<or> sg = ''+'' \<or> sg = ''-''"
    and ds: "\<forall>c\<in>set ds. isdigit c" and rest: "rest = [] \<or> \<not> isdigit (hd rest)"
    and bare: "sg = [] \<and> ds = [] \<longrightarrow>
         rest = [] \<or> (\<not> isspace (hd rest) \<and> hd rest \<noteq> CHR ''-'' \<and> hd rest \<noteq> CHR ''+'')"
    using assms by (simp_all add: numeral_text_def)
  have run: "strtol_digits 0 0 (ds @ rest) = (decimal_value ds, length ds)"
    using strtol_digits_run [OF ds rest, of 0 0] by (simp add: decimal_value_def)
  have dhd: "ds \<noteq> [] \<Longrightarrow> \<not> isspace (hd ds) \<and> hd ds \<noteq> CHR ''-'' \<and> hd ds \<noteq> CHR ''+''"
    using ds isdigit_not_space_sign [of "hd ds"] by (cases ds) auto
  have "?t = [] \<or> \<not> isspace (hd ?t)"
    using sg bare dhd by (cases ds) (auto simp: isspace_def)
  then have tw: "takeWhile isspace (ws @ ?t) = ws" "dropWhile isspace (ws @ ?t) = ?t"
    by (rule takeWhile_dropWhile_run [OF ws])+
  have eq: "strtol (ws @ ?t) =
     (let neg = (?t \<noteq> [] \<and> hd ?t = CHR ''-'');
          signed = (?t \<noteq> [] \<and> (hd ?t = CHR ''-'' \<or> hd ?t = CHR ''+''));
          s2 = (if signed then tl ?t else ?t);
          (v, n) = strtol_digits 0 0 s2
      in if n = 0 then (0, 0)
         else (if neg then max LONG_MIN (- v) else min LONG_MAX v,
               length ws + (if signed then 1 else 0) + n))"
    by (simp only: strtol_def tw Let_def)
  from sg consider "sg = []" | "sg = ''+''" | "sg = ''-''" by blast
  then show ?thesis
  proof cases
    case 1
    show ?thesis
    proof (cases "ds = []")
      case True
      with 1 bare rest have "strtol_digits 0 0 rest = (0, 0)"
        by (intro strtol_digits_stop) blast
      with 1 True bare show ?thesis
        unfolding eq by auto
    next
      case False
      with 1 dhd run show ?thesis
        unfolding eq by simp
    qed
  next
    case 2
    with run show ?thesis
      unfolding eq by simp
  next
    case 3
    with run show ?thesis
      unfolding eq by simp
  qed
qed

lemma numeral_text_exists:
  "\<exists>ws sg ds rest. s = ws @ sg @ ds @ rest \<and> numeral_text ws sg ds rest"
proof -
  define ws where "ws = takeWhile isspace s"
  define s1 where "s1 = dropWhile isspace s"
  define sg where "sg = (if s1 \<noteq> [] \<and> (hd s1 = CHR ''-'' \<or> hd s1 = CHR ''+'') then [hd s1] else [])"
  define s2 where "s2 = drop (length sg) s1"
  define ds where "ds = takeWhile isdigit s2"
  define rest where "rest = dropWhile isdigit s2"
  have "s = ws @ s1"
    by (simp add: ws_def s1_def)
  moreover have "s1 = sg @ s2"
    by (cases s1) (auto simp: sg_def s2_def)
  moreover have "s2 = ds @ rest"
    by (simp add: ds_def rest_def)
  moreover have "\<forall>c\<in>set ws. isspace c"
    unfolding ws_def by (auto dest: set_takeWhileD)
  moreover have "sg = [] \<or> sg = ''+'' \<or> sg = ''-''"
    by (auto simp: sg_def)
  moreover have "\<forall>c\<in>set ds. isdigit c"
    unfolding ds_def by (auto dest: set_takeWhileD)
  moreover have "rest = [] \<or> \<not> isdigit (hd rest)"
    unfolding rest_def using hd_dropWhile [of isdigit s2] by blast
  moreover have "sg = [] \<and> ds = [] \<longrightarrow>
      rest = [] \<or> (\<not> isspace (hd rest) \<and> hd rest \<noteq> CHR ''-'' \<and> hd rest \<noteq> CHR ''+'')"
  proof (intro impI)
    assume a: "sg = [] \<and> ds = []"
    then have "rest = s1"
      using \<open>s2 = ds @ rest\<close> \<open>s1 = sg @ s2\<close> by simp
    moreover have "s1 = [] \<or> \<not> isspace (hd s1)"
      unfolding s1_def using hd_dropWhile [of isspace s] by blast
    moreover have "s1 = [] \<or> (hd s1 \<noteq> CHR ''-'' \<and> hd s1 \<noteq> CHR ''+'')"
      using a by (auto simp: sg_def split: if_splits)
    ultimately show "rest = [] \<or>
        (\<not> isspace (hd rest) \<and> hd rest \<noteq> CHR ''-'' \<and> hd rest \<noteq> CHR ''+'')"
      by blast
  qed
  ultimately show ?thesis
    unfolding numeral_text_def by blast
qed

subsection \<open>The argument loop\<close>

lemma parse_cutoff_valid:
  assumes "wal_stricmp a ''--cutoff'' = 0" and "0 <s atoi v"
  shows "parse_arguments opts (a # v # rest) =
         parse_arguments (opts\<lparr>cutoff_count := atoi v\<rparr>) rest"
  using assms cutoff_not_other [OF assms(1)] by (auto simp: word_sle_eq word_sless_alt)

lemma parse_cutoff_invalid:
  assumes "wal_stricmp a ''--cutoff'' = 0" and "atoi v <=s 0"
  shows "parse_arguments opts (a # v # rest) = None"
  using assms cutoff_not_other [OF assms(1)] by simp

lemma main_cutoff_failure:
  assumes "parse_arguments default_options args = None"
  shows "main e (prog # dir # args) =
         Some \<lparr>exit_status = 1, stdout = cutoff_message, stderr = [],
               opendir_called = False\<rparr>"
  using assms by (simp add: main_def)

lemmas atoi_eval = atoi_def strtol_def isspace_def isdigit_def digit_value_def
  LONG_MAX_def LONG_MIN_def

lemma cutoff_flag_matches: "wal_stricmp ''--cutoff'' ''--cutoff'' = 0"
  by (simp only: wal_stricmp_0_iff)

lemma atoi_parts:
  assumes "numeral_text ws sg ds rest"
  shows "atoi (ws @ sg @ ds @ rest) =
         word_of_int (if ds = [] then 0
                      else if sg = ''-'' then max LONG_MIN (- decimal_value ds)
                      else min LONG_MAX (decimal_value ds))"
  by (simp add: atoi_def strtol_parts [OF assms] del: append.simps)

lemma atoi_positive:
  assumes "numeral_text ws sg ds rest" and "ds \<noteq> []" and "sg \<noteq> ''-''"
    and "0 < decimal_value ds" and "decimal_value ds \<le> INT_MAX"
  shows "atoi (ws @ sg @ ds @ rest) = word_of_int (decimal_value ds)"
    and "0 <s atoi (ws @ sg @ ds @ rest)"
    and "uint (word_of_int (decimal_value ds) :: 32 word) = decimal_value ds"
proof -
  have "min LONG_MAX (decimal_value ds) = decimal_value ds"
    using assms(5) by (simp add: INT_MAX_def LONG_MAX_def)
  then show e: "atoi (ws @ sg @ ds @ rest) = word_of_int (decimal_value ds)"
    unfolding atoi_parts [OF assms(1)] using assms(2,3) by simp
  have "sint (word_of_int (decimal_value ds) :: 32 word) = decimal_value ds"
    using assms(4,5) by (simp add: sint_word_of_int_32)
  then show "0 <s atoi (ws @ sg @ ds @ rest)"
    unfolding e using assms(4) by (simp add: word_sless_alt)
  show "uint (word_of_int (decimal_value ds) :: 32 word) = decimal_value ds"
    using assms(4,5) by (simp add: uint_word_of_int take_bit_int_eq_self INT_MAX_def)
qed

lemma sint_word_of_int_signed_32:
  "- 2147483648 \<le> n \<Longrightarrow> n \<le> 2147483647 \<Longrightarrow> sint (word_of_int n :: 32 word) = n"
  by (simp add: sint_sbintrunc' signed_take_bit_int_eq_self)

lemma atoi_not_positive:
  assumes "numeral_text ws sg ds rest"
    and "ds = [] \<or> decimal_value ds = 0 \<or> (sg = ''-'' \<and> decimal_value ds \<le> 2147483648)"
  shows "atoi (ws @ sg @ ds @ rest) <=s 0"
proof -
  have n: "0 \<le> decimal_value ds"
    using assms(1) by (simp add: numeral_text_def decimal_value_nonneg)
  define v where "v = (if ds = [] then 0
                      else if sg = ''-'' then max LONG_MIN (- decimal_value ds)
                      else min LONG_MAX (decimal_value ds))"
  have v: "- 2147483648 \<le> v" "v \<le> 0"
    using assms(2) n by (auto simp: v_def LONG_MIN_def LONG_MAX_def)
  then have "sint (word_of_int v :: 32 word) = v"
    by (intro sint_word_of_int_signed_32) simp_all
  with v(2) show ?thesis
    unfolding atoi_parts [OF assms(1)] v_def [symmetric] by (simp only: word_sle_eq sint_0)
qed

lemma main_list_mode:
  assumes "parse_arguments default_options args = Some opts"
    and "\<not> bundle_mode opts" and "\<not> init opts"
    and "readdir_names e dir = Some names" and "\<forall>n. calloc_ok e n"
  shows "main e (prog # dir # args) =
         (let p = sort_partitions (scan_directory (cutoff_count opts) names)
          in Some \<lparr>exit_status = EXIT_SUCCESS,
                   stdout = append_names (append_names (append_names [] CHR 0x0A
                              (lower_files p)) CHR 0x0A (unordered_files p)) CHR 0x0A
                              (upper_files p),
                   stderr = [], opendir_called = True\<rparr>)"
  using assms by (simp add: main_def Let_def)

lemma scenario_sorted_60:
  "sort_partitions (scan_directory 60
     [''.'', ''ordered.52.last'', ''fn.b'', ''skip.tmp'', ''..'', ''ordered.01.first'', ''fn.a'']) =
     \<lparr>lower_files = [\<lparr>name = ''ordered.01.first'', order_num = 1, bytesize = 16\<rparr>,
                     \<lparr>name = ''ordered.52.last'', order_num = 52, bytesize = 15\<rparr>],
      upper_files = [\<lparr>name = ''fn.a'', order_num = - 1, bytesize = 4\<rparr>,
                     \<lparr>name = ''fn.b'', order_num = - 1, bytesize = 4\<rparr>],
      unordered_files = [], main_bytesize = 47\<rparr>"
  by (simp add: classify_eval scan_eval sort_eval word_eval)

text \<open>
  Claim C5 as stated fails: \<^verbatim>\<open>60abc\<close> is not a positive integer, and \<^verbatim>\<open>--cutoff 60abc\<close>
  is no usage error. \<^verbatim>\<open>atoi\<close> reads the digits and leaves the rest: the cutoff is 60,
  the directory is scanned, and \<^verbatim>\<open>ordered.52.last\<close> is listed with the entries below
  the cutoff.
\<close>

theorem C5_cutoff_with_trailing_text_accepted:
  "parse_arguments default_options [''--cutoff'', ''60abc''] =
     Some \<lparr>init = False, bundle_mode = False, debugtext = False, cutoff_count = 60\<rparr>
   \<and> main scenario_env [''scriptsort'', ''scripts'', ''--cutoff'', ''60abc''] =
     Some \<lparr>exit_status = 0,
           stdout = ''ordered.01.first\<newline>ordered.52.last\<newline>fn.a\<newline>fn.b\<newline>'',
           stderr = [], opendir_called = True\<rparr>"
proof -
  have a: "atoi ''60abc'' = 60"
    by (simp add: atoi_eval)
  have p: "parse_arguments default_options [''--cutoff'', ''60abc''] =
     Some \<lparr>init = False, bundle_mode = False, debugtext = False, cutoff_count = 60\<rparr>"
    using parse_cutoff_valid [OF cutoff_flag_matches, of "''60abc''" default_options "[]"]
    by (simp add: a default_options_def word_sless_alt)
  let ?names = "[''.'', ''ordered.52.last'', ''fn.b'', ''skip.tmp'', ''..'',
      ''ordered.01.first'', ''fn.a'']"
  have m: "main scenario_env (''scriptsort'' # ''scripts'' # [''--cutoff'', ''60abc'']) =
      (let p = sort_partitions (scan_directory
           (cutoff_count \<lparr>init = False, bundle_mode = False, debugtext = False,
                           cutoff_count = 60\<rparr>) ?names)
       in Some \<lparr>exit_status = EXIT_SUCCESS,
                stdout = append_names (append_names (append_names [] CHR 0x0A
                           (lower_files p)) CHR 0x0A (unordered_files p)) CHR 0x0A
                           (upper_files p),
                stderr = [], opendir_called = True\<rparr>)"
    by (rule main_list_mode [OF p]) (simp_all add: scenario_env_def)
  have "main scenario_env [''scriptsort'', ''scripts'', ''--cutoff'', ''60abc''] =
     Some \<lparr>exit_status = 0,
           stdout = ''ordered.01.first\<newline>ordered.52.last\<newline>fn.a\<newline>fn.b\<newline>'',
           stderr = [], opendir_called = True\<rparr>"
    unfolding m by (simp add: scenario_sorted_60 append_names_def EXIT_SUCCESS_def)
  with p show ?thesis by simp
qed

text \<open>
  Claim C5, amended. Let the loop meet an argument \<open>a\<close> that is \<^verbatim>\<open>--cutoff\<close> without
  regard to case, followed by another argument. That argument is read as \<^verbatim>\<open>atoi\<close> reads
  it: white space \<open>ws\<close>, at most one sign \<open>sg\<close>, the longest run of digits \<open>ds\<close>, and a
  rest that is ignored; every text is of this form.
  \<^item> With digits, no minus sign and a value from 1 to \<open>INT_MAX\<close>, the cutoff is set to that
    value and the loop goes on; the run with only this option scans the directory with that
    cutoff and lists the names.
  \<^item> With no digit, with the value 0, or with a minus sign and a value of at most \<open>2 ^ 31\<close>,
    the loop ends the run, and so does the run with only this option.

  A run that the loop ends has exit status 1, the two lines about the cutoff on the standard
  output and nothing else, and has not called \<^verbatim>\<open>opendir\<close>, whatever the environment.
  \<^verbatim>\<open>--cutoff 0\<close> and \<^verbatim>\<open>--cutoff -5\<close> end the run in this way. (A value whose conversion
  to \<^verbatim>\<open>int\<close> does not fit is left open: \<^verbatim>\<open>atoi\<close> is not defined there.)
\<close>

theorem C5_cutoff_option:
  "(wal_stricmp a ''--cutoff'' = 0 \<and> numeral_text ws sg ds rest \<and> ds \<noteq> [] \<and> sg \<noteq> ''-'' \<and>
    0 < decimal_value ds \<and> decimal_value ds \<le> INT_MAX \<longrightarrow>
      parse_arguments opts (a # (ws @ sg @ ds @ rest) # others) =
        parse_arguments (opts\<lparr>cutoff_count := word_of_int (decimal_value ds)\<rparr>) others \<and>
      uint (word_of_int (decimal_value ds) :: 32 word) = decimal_value ds \<and>
      (readdir_names e dir = Some names \<and> (\<forall>n. calloc_ok e n) \<longrightarrow>
         main e [prog, dir, a, ws @ sg @ ds @ rest] =
           (let p = sort_partitions (scan_directory (word_of_int (decimal_value ds)) names)
            in Some \<lparr>exit_status = EXIT_SUCCESS,
                     stdout = append_names (append_names (append_names [] CHR 0x0A
                                (lower_files p)) CHR 0x0A (unordered_files p)) CHR 0x0A
                                (upper_files p),
                     stderr = [], opendir_called = True\<rparr>)))
   \<and> (wal_stricmp a ''--cutoff'' = 0 \<and> numeral_text ws sg ds rest \<and>
       (ds = [] \<or> decimal_value ds = 0 \<or> (sg = ''-'' \<and> decimal_value ds \<le> 2147483648)) \<longrightarrow>
      parse_arguments opts (a # (ws @ sg @ ds @ rest) # others) = None \<and>
      main e [prog, dir, a, ws @ sg @ ds @ rest] =
        Some \<lparr>exit_status = 1, stdout = cutoff_message, stderr = [],
              opendir_called = False\<rparr>)
   \<and> (parse_arguments default_options args = None \<longrightarrow>
      main e (prog # dir # args) =
      Some \<lparr>exit_status = 1, stdout = cutoff_message, stderr = [],
            opendir_called = False\<rparr>)
   \<and> (\<exists>ws sg ds rest. v = ws @ sg @ ds @ rest \<and> numeral_text ws sg ds rest)
   \<and> main e [prog, dir, ''--cutoff'', ''0''] =
      Some \<lparr>exit_status = 1, stdout = cutoff_message, stderr = [],
            opendir_called = False\<rparr>
   \<and> main e [prog, dir, ''--cutoff'', ''-5''] =
      Some \<lparr>exit_status = 1, stdout = cutoff_message, stderr = [],
            opendir_called = False\<rparr>
   \<and> EXIT_FAILURE = 1"
proof (intro conjI impI)
  assume a: "wal_stricmp a ''--cutoff'' = 0 \<and> numeral_text ws sg ds rest \<and> ds \<noteq> [] \<and>
    sg \<noteq> ''-'' \<and> 0 < decimal_value ds \<and> decimal_value ds \<le> INT_MAX"
  then have nt: "numeral_text ws sg ds rest" and ds: "ds \<noteq> []" and sg: "sg \<noteq> ''-''"
    and lo: "0 < decimal_value ds" and hi: "decimal_value ds \<le> INT_MAX"
    and flag: "wal_stricmp a ''--cutoff'' = 0"
    by blast+
  note pos = atoi_positive [OF nt ds sg lo hi]
  show step: "parse_arguments opts (a # (ws @ sg @ ds @ rest) # others) =
        parse_arguments (opts\<lparr>cutoff_count := word_of_int (decimal_value ds)\<rparr>) others"
    for opts others
    using parse_cutoff_valid [OF flag pos(2)] by (simp only: pos(1))
  show "uint (word_of_int (decimal_value ds) :: 32 word) = decimal_value ds"
    by (rule pos(3))
  assume env: "readdir_names e dir = Some names \<and> (\<forall>n. calloc_ok e n)"
  have p: "parse_arguments default_options [a, ws @ sg @ ds @ rest] =
      Some (default_options\<lparr>cutoff_count := word_of_int (decimal_value ds)\<rparr>)"
    unfolding step by simp
  show "main e [prog, dir, a, ws @ sg @ ds @ rest] =
           (let p = sort_partitions (scan_directory (word_of_int (decimal_value ds)) names)
            in Some \<lparr>exit_status = EXIT_SUCCESS,
                     stdout = append_names (append_names (append_names [] CHR 0x0A
                                (lower_files p)) CHR 0x0A (unordered_files p)) CHR 0x0A
                                (upper_files p),
                     stderr = [], opendir_called = True\<rparr>)"
    using main_list_mode [OF p, of e dir names prog] env
    by (simp add: default_options_def)
next
  assume a: "wal_stricmp a ''--cutoff'' = 0 \<and> numeral_text ws sg ds rest \<and>
       (ds = [] \<or> decimal_value ds = 0 \<or> (sg = ''-'' \<and> decimal_value ds \<le> 2147483648))"
  then have neg: "atoi (ws @ sg @ ds @ rest) <=s 0"
    by (intro atoi_not_positive) blast+
  from a have flag: "wal_stricmp a ''--cutoff'' = 0" by blast
  show stop: "parse_arguments opts (a # (ws @ sg @ ds @ rest) # others) = None" for opts others
    by (rule parse_cutoff_invalid [OF flag neg])
  show "main e [prog, dir, a, ws @ sg @ ds @ rest] =
        Some \<lparr>exit_status = 1, stdout = cutoff_message, stderr = [],
              opendir_called = False\<rparr>"
    by (rule main_cutoff_failure) (rule stop)
next
  show "main e (prog # dir # args) =
      Some \<lparr>exit_status = 1, stdout = cutoff_message, stderr = [],
            opendir_called = False\<rparr>"
    if "parse_arguments default_options args = None"
    using that by (rule main_cutoff_failure)
  show "\<exists>ws sg ds rest. v = ws @ sg @ ds @ rest \<and> numeral_text ws sg ds rest"
    by (rule numeral_text_exists)
  have zero: "atoi ''0'' <=s 0" and minus: "atoi ''-5'' <=s 0"
    by (simp_all add: atoi_eval word_sle_eq)
  show "main e [prog, dir, ''--cutoff'', ''0''] =
      Some \<lparr>exit_status = 1, stdout = cutoff_message, stderr = [],
            opendir_called = False\<rparr>"
    by (rule main_cutoff_failure) (rule parse_cutoff_invalid [OF cutoff_flag_matches zero])
  show "main e [prog, dir, ''--cutoff'', ''-5''] =
      Some \<lparr>exit_status = 1, stdout = cutoff_message, stderr = [],
            opendir_called = False\<rparr>"
    by (rule main_cutoff_failure) (rule parse_cutoff_invalid [OF cutoff_flag_matches minus])
  show "EXIT_FAILURE = 1" by (simp add: EXIT_FAILURE_def)
qed

theorem C5_cutoff_option_witness:
  "wal_stricmp ''--CutOff'' ''--cutoff'' = 0
   \<and> numeral_text '' '' ''+'' ''60'' ''abc'' \<and> decimal_value ''60'' = 60
   \<and> decimal_value ''60'' \<le> INT_MAX
   \<and> parse_arguments default_options [''--CutOff'', '' +60abc'', ''--bundle''] =
       Some \<lparr>init = False, bundle_mode = True, debugtext = False, cutoff_count = 60\<rparr>
   \<and> readdir_names scenario_env ''scripts'' =
       Some [''.'', ''ordered.52.last'', ''fn.b'', ''skip.tmp'', ''..'', ''ordered.01.first'',
             ''fn.a'']
   \<and> (\<forall>n. calloc_ok scenario_env n)
   \<and> main scenario_env [''scriptsort'', ''scripts'', ''--CutOff'', '' +60abc''] =
       Some \<lparr>exit_status = 0,
             stdout = ''ordered.01.first\<newline>ordered.52.last\<newline>fn.a\<newline>fn.b\<newline>'',
             stderr = [], opendir_called = True\<rparr>
   \<and> numeral_text [] [] [] ''abc''
   \<and> parse_arguments default_options [''--CutOff'', ''abc'', ''--bundle''] = None
   \<and> main scenario_env [''scriptsort'', ''scripts'', ''--CutOff'', ''abc''] =
       Some \<lparr>exit_status = 1, stdout = cutoff_message, stderr = [],
             opendir_called = False\<rparr>
   \<and> main scenario_env [''scriptsort'', ''scripts'', ''--CutOff'', ''abc'', ''--bundle''] =
       Some \<lparr>exit_status = 1, stdout = cutoff_message, stderr = [],
             opendir_called = False\<rparr>
   \<and> numeral_text [] ''-'' ''5'' [] \<and> decimal_value ''5'' \<le> 2147483648
   \<and> parse_arguments default_options [''--CutOff'', ''-5''] = None"
proof -
  let ?names = "[''.'', ''ordered.52.last'', ''fn.b'', ''skip.tmp'', ''..'',
      ''ordered.01.first'', ''fn.a'']"
  have m: "wal_stricmp ''--CutOff'' ''--cutoff'' = 0"
    by (simp add: ctype_eval)
  have nt: "numeral_text '' '' ''+'' ''60'' ''abc''" "numeral_text [] [] [] ''abc''"
    "numeral_text [] ''-'' ''5'' []"
    by (simp_all add: numeral_text_def isspace_def isdigit_def)
  have v: "decimal_value ''60'' = 60" "decimal_value ''5'' = 5"
    by (simp_all add: decimal_value_def digit_value_def)
  have env: "readdir_names scenario_env ''scripts'' = Some ?names"
    "\<forall>n. calloc_ok scenario_env n"
    by (simp_all add: scenario_env_def)
  note C = C5_cutoff_option [where a = "''--CutOff''" and opts = default_options and
      e = scenario_env and prog = "''scriptsort''" and dir = "''scripts''" and names = ?names]
  have 1: "parse_arguments default_options
        [''--CutOff'', '' '' @ ''+'' @ ''60'' @ ''abc'', ''--bundle''] =
      parse_arguments (default_options\<lparr>cutoff_count := word_of_int (decimal_value ''60'')\<rparr>)
        [''--bundle'']"
    using C [where ws = "'' ''" and sg = "''+''" and ds = "''60''" and rest = "''abc''" and
        others = "[''--bundle'']"] m nt(1) v(1)
    by (simp add: INT_MAX_def)
  have 2: "main scenario_env [''scriptsort'', ''scripts'', ''--CutOff'',
        '' '' @ ''+'' @ ''60'' @ ''abc''] =
      (let p = sort_partitions (scan_directory (word_of_int (decimal_value ''60'')) ?names)
       in Some \<lparr>exit_status = EXIT_SUCCESS,
                stdout = append_names (append_names (append_names [] CHR 0x0A
                           (lower_files p)) CHR 0x0A (unordered_files p)) CHR 0x0A
                           (upper_files p),
                stderr = [], opendir_called = True\<rparr>)"
    using C [where ws = "'' ''" and sg = "''+''" and ds = "''60''" and rest = "''abc''"]
      m nt(1) v(1) env
    by (simp add: INT_MAX_def)
  have 3: "parse_arguments default_options [''--CutOff'', [] @ [] @ [] @ ''abc'', ''--bundle'']
      = None"
    using C [where ws = "[]" and sg = "[]" and ds = "[]" and rest = "''abc''" and
        others = "[''--bundle'']"] m nt(2)
    by blast
  have 4: "main scenario_env [''scriptsort'', ''scripts'', ''--CutOff'', [] @ [] @ [] @ ''abc'']
      = Some \<lparr>exit_status = 1, stdout = cutoff_message, stderr = [],
             opendir_called = False\<rparr>"
    using C [where ws = "[]" and sg = "[]" and ds = "[]" and rest = "''abc''"] m nt(2)
    by blast
  have 5: "main scenario_env (''scriptsort'' # ''scripts'' #
        [''--CutOff'', [] @ [] @ [] @ ''abc'', ''--bundle'']) =
       Some \<lparr>exit_status = 1, stdout = cutoff_message, stderr = [],
             opendir_called = False\<rparr>"
    using C [where args = "[''--CutOff'', [] @ [] @ [] @ ''abc'', ''--bundle'']"] 3
    by blast
  have 6: "parse_arguments default_options [''--CutOff'', [] @ ''-'' @ ''5'' @ []] = None"
    using C [where ws = "[]" and sg = "''-''" and ds = "''5''" and rest = "[]" and
        others = "[]"] m nt(3) v(2)
    by simp
  have 7: "parse_arguments (default_options\<lparr>cutoff_count := 60\<rparr>) [''--bundle''] =
       Some \<lparr>init = False, bundle_mode = True, debugtext = False, cutoff_count = 60\<rparr>"
    by (simp add: default_options_def ctype_eval wal_result_def)
  show ?thesis
    using m nt v env 1 2 3 4 5 6 7
    by (simp add: INT_MAX_def scenario_sorted_60 append_names_def EXIT_SUCCESS_def)
qed

text \<open>
  Claim C10. Where the loop meets an argument that is none of the four flags, it goes on
  with the next argument in the same state, and the whole run is the run without that
  argument. An argument that is \<^verbatim>\<open>--cutoff\<close> without regard to case and is the last one
  is passed over in the same way: the loop ends in the state it was in, and the run is the
  run without it. The cutoff is 50 unless the loop sets it.
\<close>

theorem C10_ignored_arguments:
  "(wal_stricmp x ''--init'' \<noteq> 0 \<and> wal_stricmp x ''--bundle'' \<noteq> 0 \<and>
    wal_stricmp x ''--debug'' \<noteq> 0 \<and> wal_stricmp x ''--cutoff'' \<noteq> 0 \<longrightarrow>
      parse_arguments opts (x # rest) = parse_arguments opts rest \<and>
      main e (prog # dir # x # rest) = main e (prog # dir # rest))
   \<and> (wal_stricmp y ''--cutoff'' = 0 \<longrightarrow>
      parse_arguments opts [y] = Some opts \<and>
      main e [prog, dir, y] = main e [prog, dir])
   \<and> cutoff_count default_options = 50"
proof (intro conjI impI)
  assume "wal_stricmp x ''--init'' \<noteq> 0 \<and> wal_stricmp x ''--bundle'' \<noteq> 0 \<and>
    wal_stricmp x ''--debug'' \<noteq> 0 \<and> wal_stricmp x ''--cutoff'' \<noteq> 0"
  then show "parse_arguments opts (x # rest) = parse_arguments opts rest"
    and "main e (prog # dir # x # rest) = main e (prog # dir # rest)"
    by (simp_all add: main_def cong del: option.case_cong_weak if_weak_cong)
next
  assume "wal_stricmp y ''--cutoff'' = 0"
  then show "parse_arguments opts [y] = Some opts"
    and "main e [prog, dir, y] = main e [prog, dir]"
    using cutoff_not_other [of y]
    by (simp_all add: main_def cong del: option.case_cong_weak if_weak_cong)
next
  show "cutoff_count default_options = 50" by (simp add: default_options_def)
qed

theorem C10_ignored_arguments_witness:
  "wal_stricmp ''--verbose'' ''--init'' \<noteq> 0 \<and> wal_stricmp ''--verbose'' ''--bundle'' \<noteq> 0
   \<and> wal_stricmp ''--verbose'' ''--debug'' \<noteq> 0 \<and> wal_stricmp ''--verbose'' ''--cutoff'' \<noteq> 0
   \<and> main scenario_env [''scriptsort'', ''scripts'', ''--verbose''] =
     Some \<lparr>exit_status = 0,
           stdout = ''ordered.01.first\<newline>fn.a\<newline>fn.b\<newline>ordered.52.last\<newline>'',
           stderr = [], opendir_called = True\<rparr>
   \<and> wal_stricmp ''--CUTOFF'' ''--cutoff'' = 0
   \<and> parse_arguments default_options [''--CUTOFF''] = Some default_options
   \<and> main scenario_env [''scriptsort'', ''scripts'', ''--CUTOFF''] =
     Some \<lparr>exit_status = 0,
           stdout = ''ordered.01.first\<newline>fn.a\<newline>fn.b\<newline>ordered.52.last\<newline>'',
           stderr = [], opendir_called = True\<rparr>"
proof -
  have no: "wal_stricmp ''--verbose'' ''--init'' \<noteq> 0 \<and>
    wal_stricmp ''--verbose'' ''--bundle'' \<noteq> 0 \<and>
    wal_stricmp ''--verbose'' ''--debug'' \<noteq> 0 \<and>
    wal_stricmp ''--verbose'' ''--cutoff'' \<noteq> 0"
    by (simp add: ctype_eval wal_result_def)
  have yes: "wal_stricmp ''--CUTOFF'' ''--cutoff'' = 0"
    by (simp add: ctype_eval)
  note C = C10_ignored_arguments [of "''--verbose''" default_options "[]" scenario_env
      "''scriptsort''" "''scripts''" "''--CUTOFF''"]
  from C no have 1: "main scenario_env [''scriptsort'', ''scripts'', ''--verbose''] =
      main scenario_env [''scriptsort'', ''scripts'']"
    by blast
  from C yes have 2: "parse_arguments default_options [''--CUTOFF''] = Some default_options"
    and 3: "main scenario_env [''scriptsort'', ''scripts'', ''--CUTOFF''] =
      main scenario_env [''scriptsort'', ''scripts'']"
    by blast+
  show ?thesis
    using no yes 1 2 3 scenario_list by simp
qed

subsection \<open>The order number of a name\<close>

lemma extract_order_number_prefixed:
  "extract_order_number (''ordered.'' @ s) =
     (let (num, endoff) = strtol s
      in if endoff = 0 \<or> num < 0 \<or> num > INT_MAX then - 1 else word_of_int num)"
  by (simp add: extract_order_number_def)

lemma not_prefixed:
  assumes "\<not> (\<exists>rest. f = ''ordered.'' @ rest)"
  shows "take 8 f \<noteq> ''ordered.''"
proof
  assume "take 8 f = ''ordered.''"
  then have "f = ''ordered.'' @ drop 8 f"
    by (metis append_take_drop_id)
  with assms show False by blast
qed

text \<open>
  A sign or white space in front of the digits is accepted by \<^verbatim>\<open>strtol\<close>, and \<open>-0\<close> is
  not negative.
\<close>

lemma extract_order_number_sign_and_space:
  "extract_order_number ''ordered.+5.x'' = 5"
  "extract_order_number ''ordered. 5.x'' = 5"
  "extract_order_number ''ordered.-0.x'' = 0"
  by (simp_all add: classify_eval)

lemma extract_order_number_parts:
  assumes "numeral_text ws sg ds rest"
  shows "extract_order_number (''ordered.'' @ ws @ sg @ ds @ rest) =
         (if ds = [] then - 1
          else if sg = ''-'' then (if decimal_value ds = 0 then 0 else - 1)
          else if decimal_value ds \<le> INT_MAX then word_of_int (decimal_value ds)
          else - 1)"
proof -
  have n: "0 \<le> decimal_value ds"
    using assms by (simp add: numeral_text_def decimal_value_nonneg)
  show ?thesis
    unfolding extract_order_number_prefixed strtol_parts [OF assms]
    using n by (simp add: INT_MAX_def LONG_MAX_def LONG_MIN_def)
qed

text \<open>
  Claim C2 as stated fails: in \<^verbatim>\<open>ordered.+5.x\<close> no digit follows the prefix, the
  character there is a sign, and the name is not treated as unordered: \<^verbatim>\<open>strtol\<close> takes
  the sign and reads the order number 5.
\<close>

theorem C2_sign_after_prefix_is_read:
  "\<not> isdigit (hd ''+5.x'') \<and> extract_order_number (''ordered.'' @ ''+5.x'') = 5
   \<and> extract_order_number (''ordered.'' @ ''+5.x'') \<noteq> - 1"
  by (simp add: classify_eval)

text \<open>
  Claim C2, amended. A name that does not start with \<^verbatim>\<open>ordered.\<close> has no order number
  (the result \<open>-1\<close>). What follows the prefix is read as \<^verbatim>\<open>strtol\<close> reads it: white
  space \<open>ws\<close>, at most one sign \<open>sg\<close>, the longest run of digits \<open>ds\<close>, and the rest;
  every text is of this form.
  \<^item> With no digit there (\<open>ds\<close> is empty), the name has no order number.
  \<^item> With digits and no minus sign, the order number is the value of the digits when that
    is at most \<open>INT_MAX\<close>, and the name has no order number when the value is larger.
  \<^item> With digits after a minus sign, the name has no order number unless the value is 0,
    and then the order number is 0.

  In particular, for a name \<^verbatim>\<open>ordered.<digits><rest>\<close> with a value of at most \<open>INT_MAX\<close>
  the order number is the value of the longest run of digits after the prefix.
\<close>

theorem C2_extract_order_number:
  "(\<not> (\<exists>rest. f = ''ordered.'' @ rest) \<longrightarrow> extract_order_number f = - 1)
   \<and> (numeral_text ws sg ds rest \<longrightarrow>
        (ds = [] \<longrightarrow> extract_order_number (''ordered.'' @ ws @ sg @ ds @ rest) = - 1) \<and>
        (ds \<noteq> [] \<and> sg \<noteq> ''-'' \<and> decimal_value ds \<le> INT_MAX \<longrightarrow>
           sint (extract_order_number (''ordered.'' @ ws @ sg @ ds @ rest)) = decimal_value ds \<and>
           extract_order_number (''ordered.'' @ ws @ sg @ ds @ rest) \<noteq> - 1) \<and>
        (ds \<noteq> [] \<and> sg \<noteq> ''-'' \<and> INT_MAX < decimal_value ds \<longrightarrow>
           extract_order_number (''ordered.'' @ ws @ sg @ ds @ rest) = - 1) \<and>
        (ds \<noteq> [] \<and> sg = ''-'' \<and> decimal_value ds \<noteq> 0 \<longrightarrow>
           extract_order_number (''ordered.'' @ ws @ sg @ ds @ rest) = - 1) \<and>
        (ds \<noteq> [] \<and> sg = ''-'' \<and> decimal_value ds = 0 \<longrightarrow>
           extract_order_number (''ordered.'' @ ws @ sg @ ds @ rest) = 0))
   \<and> (\<exists>ws sg ds rest. s = ws @ sg @ ds @ rest \<and> numeral_text ws sg ds rest)
   \<and> (ds \<noteq> [] \<and> (\<forall>c\<in>set ds. isdigit c) \<and> (rest = [] \<or> \<not> isdigit (hd rest)) \<and>
       decimal_value ds \<le> INT_MAX \<longrightarrow>
         sint (extract_order_number (''ordered.'' @ ds @ rest)) = decimal_value ds \<and>
         extract_order_number (''ordered.'' @ ds @ rest) \<noteq> - 1)"
proof (intro conjI impI)
  assume "\<not> (\<exists>rest. f = ''ordered.'' @ rest)"
  then show "extract_order_number f = - 1"
    using not_prefixed [of f] by (simp add: extract_order_number_def)
next
  show "\<exists>ws sg ds rest. s = ws @ sg @ ds @ rest \<and> numeral_text ws sg ds rest"
    by (rule numeral_text_exists)
next
  fix ws sg
  have value_read: "sint (extract_order_number (''ordered.'' @ ws @ sg @ ds @ rest)) =
        decimal_value ds \<and>
      extract_order_number (''ordered.'' @ ws @ sg @ ds @ rest) \<noteq> - 1"
    if nt: "numeral_text ws sg ds rest"
      and a: "ds \<noteq> [] \<and> sg \<noteq> ''-'' \<and> decimal_value ds \<le> INT_MAX" for ws sg
  proof -
    have n: "0 \<le> decimal_value ds"
      using nt by (simp add: numeral_text_def decimal_value_nonneg)
    have e: "extract_order_number (''ordered.'' @ ws @ sg @ ds @ rest) =
        word_of_int (decimal_value ds)"
      unfolding extract_order_number_parts [OF nt] using a by simp
    have v: "sint (extract_order_number (''ordered.'' @ ws @ sg @ ds @ rest)) = decimal_value ds"
      unfolding e using a n by (simp add: sint_word_of_int_32)
    moreover have "extract_order_number (''ordered.'' @ ws @ sg @ ds @ rest) \<noteq> - 1"
    proof
      assume "extract_order_number (''ordered.'' @ ws @ sg @ ds @ rest) = - 1"
      with v have "decimal_value ds = - 1" by simp
      with n show False by simp
    qed
    ultimately show ?thesis by blast
  qed
  {
    assume nt: "numeral_text ws sg ds rest"
    show "extract_order_number (''ordered.'' @ ws @ sg @ ds @ rest) = - 1" if "ds = []"
      unfolding extract_order_number_parts [OF nt] using that by simp
    show "sint (extract_order_number (''ordered.'' @ ws @ sg @ ds @ rest)) = decimal_value ds"
      and "extract_order_number (''ordered.'' @ ws @ sg @ ds @ rest) \<noteq> - 1"
      if "ds \<noteq> [] \<and> sg \<noteq> ''-'' \<and> decimal_value ds \<le> INT_MAX"
      using value_read [OF nt that] by blast+
    show "extract_order_number (''ordered.'' @ ws @ sg @ ds @ rest) = - 1"
      if "ds \<noteq> [] \<and> sg \<noteq> ''-'' \<and> INT_MAX < decimal_value ds"
      unfolding extract_order_number_parts [OF nt] using that by simp
    show "extract_order_number (''ordered.'' @ ws @ sg @ ds @ rest) = - 1"
      if "ds \<noteq> [] \<and> sg = ''-'' \<and> decimal_value ds \<noteq> 0"
      unfolding extract_order_number_parts [OF nt] using that by simp
    show "extract_order_number (''ordered.'' @ ws @ sg @ ds @ rest) = 0"
      if "ds \<noteq> [] \<and> sg = ''-'' \<and> decimal_value ds = 0"
      unfolding extract_order_number_parts [OF nt] using that by simp
  }
  assume b: "ds \<noteq> [] \<and> (\<forall>c\<in>set ds. isdigit c) \<and> (rest = [] \<or> \<not> isdigit (hd rest)) \<and>
       decimal_value ds \<le> INT_MAX"
  then have nt: "numeral_text [] [] ds rest"
    by (simp add: numeral_text_def)
  from b have "ds \<noteq> [] \<and> [] \<noteq> ''-'' \<and> decimal_value ds \<le> INT_MAX"
    by simp
  from value_read [OF nt this]
  show "sint (extract_order_number (''ordered.'' @ ds @ rest)) = decimal_value ds"
    and "extract_order_number (''ordered.'' @ ds @ rest) \<noteq> - 1"
    by simp_all
qed

theorem C2_extract_order_number_witness:
  "\<not> (\<exists>rest. ''fn.a'' = ''ordered.'' @ rest) \<and> extract_order_number ''fn.a'' = - 1
   \<and> numeral_text [] [] ''07'' ''.setup'' \<and> decimal_value ''07'' = 7
   \<and> decimal_value ''07'' \<le> INT_MAX
   \<and> sint (extract_order_number ''ordered.07.setup'') = 7
   \<and> numeral_text '' '' ''+'' ''5'' ''.x'' \<and> decimal_value ''5'' = 5
   \<and> sint (extract_order_number ''ordered. +5.x'') = 5
   \<and> numeral_text [] [] [] ''.x'' \<and> extract_order_number ''ordered..x'' = - 1
   \<and> numeral_text [] [] ''2147483648'' ''.x'' \<and> INT_MAX < decimal_value ''2147483648''
   \<and> extract_order_number ''ordered.2147483648.x'' = - 1
   \<and> numeral_text [] ''-'' ''7'' ''.x'' \<and> decimal_value ''7'' \<noteq> 0
   \<and> extract_order_number ''ordered.-7.x'' = - 1
   \<and> numeral_text [] ''-'' ''0'' ''.x'' \<and> decimal_value ''0'' = 0
   \<and> extract_order_number ''ordered.-0.x'' = 0"
proof -
  have nt: "numeral_text [] [] ''07'' ''.setup''" "numeral_text '' '' ''+'' ''5'' ''.x''"
    "numeral_text [] [] [] ''.x''" "numeral_text [] [] ''2147483648'' ''.x''"
    "numeral_text [] ''-'' ''7'' ''.x''" "numeral_text [] ''-'' ''0'' ''.x''"
    by (simp_all add: numeral_text_def isspace_def isdigit_def)
  have v: "decimal_value ''07'' = 7" "decimal_value ''5'' = 5"
    "decimal_value ''2147483648'' = 2147483648" "decimal_value ''7'' = 7"
    "decimal_value ''0'' = 0"
    by (simp_all add: decimal_value_def digit_value_def)
  have p: "\<not> (\<exists>rest. ''fn.a'' = ''ordered.'' @ rest)"
    by simp
  from C2_extract_order_number [where f = "''fn.a''"] p
  have 1: "extract_order_number ''fn.a'' = - 1" by blast
  from C2_extract_order_number [where ws = "[]" and sg = "[]" and ds = "''07''" and
      rest = "''.setup''"] nt(1) v(1)
  have 2: "sint (extract_order_number (''ordered.'' @ [] @ [] @ ''07'' @ ''.setup'')) =
      decimal_value ''07''"
    by (simp add: INT_MAX_def)
  from C2_extract_order_number [where ws = "'' ''" and sg = "''+''" and ds = "''5''" and
      rest = "''.x''"] nt(2) v(2)
  have 3: "sint (extract_order_number (''ordered.'' @ '' '' @ ''+'' @ ''5'' @ ''.x'')) =
      decimal_value ''5''"
    by (simp add: INT_MAX_def)
  from C2_extract_order_number [where ws = "[]" and sg = "[]" and ds = "[]" and
      rest = "''.x''"] nt(3)
  have 4: "extract_order_number (''ordered.'' @ [] @ [] @ [] @ ''.x'') = - 1"
    by blast
  from C2_extract_order_number [where ws = "[]" and sg = "[]" and ds = "''2147483648''" and
      rest = "''.x''"] nt(4) v(3)
  have 5: "extract_order_number (''ordered.'' @ [] @ [] @ ''2147483648'' @ ''.x'') = - 1"
    by (simp add: INT_MAX_def)
  from C2_extract_order_number [where ws = "[]" and sg = "''-''" and ds = "''7''" and
      rest = "''.x''"] nt(5) v(4)
  have 6: "extract_order_number (''ordered.'' @ [] @ ''-'' @ ''7'' @ ''.x'') = - 1"
    by simp
  from C2_extract_order_number [where ws = "[]" and sg = "''-''" and ds = "''0''" and
      rest = "''.x''"] nt(6) v(5)
  have 7: "extract_order_number (''ordered.'' @ [] @ ''-'' @ ''0'' @ ''.x'') = 0"
    by simp
  show ?thesis
    using nt v p 1 2 3 4 5 6 7 by (simp add: INT_MAX_def)
qed

subsection \<open>Growing the buffer\<close>

lemma grow_capacity_returns:
  assumes "0 < c" and "needed \<le> 2 ^ 63"
  shows "\<exists>k. grow_capacity c needed = Some (c * 2 ^ k) \<and> needed \<le> c * 2 ^ k \<and>
             (0 < k \<longleftrightarrow> c < needed) \<and> (0 < k \<longrightarrow> c * 2 ^ (k - 1) < needed)"
  using assms
proof (induction "needed - c" arbitrary: c rule: less_induct)
  case less
  show ?case
  proof (cases "c < needed")
    case False
    then have "grow_capacity c needed = Some c"
      by (subst grow_capacity.simps) simp
    with False show ?thesis
      by (intro exI [of _ 0]) simp
  next
    case True
    with less.prems have small: "c * 2 < SIZE_MODULUS"
      by (simp add: SIZE_MODULUS_def)
    have step: "grow_capacity c needed = grow_capacity (c * 2) needed"
      using True small by (subst grow_capacity.simps) simp
    have "needed - c * 2 < needed - c"
      using True less.prems by simp
    from less.hyps [OF this] less.prems
    obtain k where k: "grow_capacity (c * 2) needed = Some (c * 2 * 2 ^ k)"
      "needed \<le> c * 2 * 2 ^ k" "0 < k \<longleftrightarrow> c * 2 < needed"
      "0 < k \<longrightarrow> c * 2 * 2 ^ (k - 1) < needed"
      by auto
    have "c * 2 ^ (Suc k - 1) < needed"
    proof (cases k)
      case 0
      with True show ?thesis by simp
    next
      case (Suc j)
      with k(4) show ?thesis by (simp add: mult.assoc)
    qed
    with k(1,2) True step show ?thesis
      by (intro exI [of _ "Suc k"]) (simp add: mult.assoc)
  qed
qed

lemma doubled_initial_small:
  "INITIAL_BUFFER_SIZE * 2 ^ k mod SIZE_MODULUS \<le> 2 ^ 63"
proof (cases "k \<le> 51")
  case True
  have "INITIAL_BUFFER_SIZE * 2 ^ k = (2::nat) ^ (12 + k)"
    by (simp add: INITIAL_BUFFER_SIZE_def power_add)
  also have "\<dots> \<le> 2 ^ 63"
    using True by (intro power_increasing) simp_all
  finally have "INITIAL_BUFFER_SIZE * 2 ^ k \<le> 2 ^ 63" .
  moreover have "INITIAL_BUFFER_SIZE * 2 ^ k mod SIZE_MODULUS \<le> INITIAL_BUFFER_SIZE * 2 ^ k"
    by (rule mod_less_eq_dividend)
  ultimately show ?thesis by (rule order_trans [rotated])
next
  case False
  define j where "j = k - 52"
  with False have j: "k = 52 + j" by simp
  have "INITIAL_BUFFER_SIZE * 2 ^ k = SIZE_MODULUS * 2 ^ j"
    by (simp add: INITIAL_BUFFER_SIZE_def SIZE_MODULUS_def j power_add)
  then show ?thesis by simp
qed

text \<open>
  From the initial capacity and a request of \<open>2 ^ 63 + 1\<close> bytes the loop reaches only
  capacities of the form \<open>4096 * 2 ^ k mod 2 ^ 64\<close>, which are all smaller than the
  request: it returns nothing.
\<close>

lemma grow_capacity_never_returns:
  assumes "grow_capacity c n = Some r"
  shows "n = 2 ^ 63 + 1 \<longrightarrow> (\<forall>k. c \<noteq> INITIAL_BUFFER_SIZE * 2 ^ k mod SIZE_MODULUS)"
proof (rule grow_capacity.raw_induct
    [where P = "\<lambda>c n r. n = 2 ^ 63 + 1 \<longrightarrow>
       (\<forall>k. c \<noteq> INITIAL_BUFFER_SIZE * 2 ^ k mod SIZE_MODULUS)", OF _ assms])
  fix f :: "nat \<Rightarrow> nat \<Rightarrow> nat option" and c n r :: nat
  assume IH: "\<And>c n r. f c n = Some r \<Longrightarrow>
    n = 2 ^ 63 + 1 \<longrightarrow> (\<forall>k. c \<noteq> INITIAL_BUFFER_SIZE * 2 ^ k mod SIZE_MODULUS)"
  assume eq: "(if c < n then f (c * 2 mod SIZE_MODULUS) n else Some c) = Some r"
  show "n = 2 ^ 63 + 1 \<longrightarrow> (\<forall>k. c \<noteq> INITIAL_BUFFER_SIZE * 2 ^ k mod SIZE_MODULUS)"
  proof (intro impI allI notI)
    fix k
    assume n: "n = 2 ^ 63 + 1" and c: "c = INITIAL_BUFFER_SIZE * 2 ^ k mod SIZE_MODULUS"
    have "c < n"
      using doubled_initial_small [of k] by (simp add: n c)
    with eq have "f (c * 2 mod SIZE_MODULUS) n = Some r"
      by simp
    from IH [OF this] n
    have "c * 2 mod SIZE_MODULUS \<noteq> INITIAL_BUFFER_SIZE * 2 ^ Suc k mod SIZE_MODULUS"
      by blast
    moreover have "c * 2 mod SIZE_MODULUS = INITIAL_BUFFER_SIZE * 2 ^ Suc k mod SIZE_MODULUS"
    proof -
      have "c * 2 mod SIZE_MODULUS =
          (INITIAL_BUFFER_SIZE * 2 ^ k mod SIZE_MODULUS) * 2 mod SIZE_MODULUS"
        by (simp only: c)
      also have "\<dots> = (INITIAL_BUFFER_SIZE * 2 ^ k) * 2 mod SIZE_MODULUS"
        by (rule mod_mult_left_eq)
      also have "(INITIAL_BUFFER_SIZE * 2 ^ k) * 2 = INITIAL_BUFFER_SIZE * 2 ^ Suc k"
        by simp
      finally show ?thesis .
    qed
    ultimately show False by simp
  qed
qed

lemma grow_capacity_diverges:
  "grow_capacity INITIAL_BUFFER_SIZE (2 ^ 63 + 1) = None"
proof (cases "grow_capacity INITIAL_BUFFER_SIZE (2 ^ 63 + 1)")
  case None
  then show ?thesis .
next
  case (Some r)
  from grow_capacity_never_returns [OF this]
  have "INITIAL_BUFFER_SIZE \<noteq> INITIAL_BUFFER_SIZE * 2 ^ 0 mod SIZE_MODULUS"
    by blast
  then show ?thesis
    by (simp add: INITIAL_BUFFER_SIZE_def SIZE_MODULUS_def)
qed

lemma ensure_buffer_capacity_returns:
  assumes "capacity = INITIAL_BUFFER_SIZE * 2 ^ j" and "needed \<le> 2 ^ 63"
  shows "\<exists>k. needed \<le> capacity * 2 ^ k \<and> (0 < k \<longleftrightarrow> capacity < needed) \<and>
           (0 < k \<longrightarrow> capacity * 2 ^ (k - 1) < needed) \<and>
           ensure_buffer_capacity e capacity needed =
             Some (if 0 < k \<and> \<not> realloc_ok e (capacity * 2 ^ k)
                   then Inl (Failed_to_reallocate_buffer (capacity * 2 ^ k))
                   else Inr (capacity * 2 ^ k))"
proof -
  have "0 < capacity"
    by (simp add: assms(1) INITIAL_BUFFER_SIZE_def)
  from grow_capacity_returns [OF this assms(2)]
  obtain k where k: "grow_capacity capacity needed = Some (capacity * 2 ^ k)"
    "needed \<le> capacity * 2 ^ k" "0 < k \<longleftrightarrow> capacity < needed"
    "0 < k \<longrightarrow> capacity * 2 ^ (k - 1) < needed"
    by blast
  show ?thesis
  proof (intro exI [of _ k] conjI)
    show "ensure_buffer_capacity e capacity needed =
             Some (if 0 < k \<and> \<not> realloc_ok e (capacity * 2 ^ k)
                   then Inl (Failed_to_reallocate_buffer (capacity * 2 ^ k))
                   else Inr (capacity * 2 ^ k))"
      using k by (cases "capacity < needed") (auto simp: ensure_buffer_capacity_def)
  qed (use k in auto)
qed

subsection \<open>Writing into the buffer\<close>

lemma poke_within:
  "i \<le> length m \<Longrightarrow> poke m i c = take i m @ Some c # drop (Suc i) m"
proof (cases "i < length m")
  case True
  then show ?thesis by (simp add: poke_def upd_conv_take_nth_drop)
next
  case False
  moreover assume "i \<le> length m"
  ultimately have "i = length m" by simp
  then show ?thesis by (simp add: poke_def)
qed

lemma write_bytes_within:
  "i \<le> length m \<Longrightarrow>
   write_bytes m i bs = take i m @ map Some bs @ drop (i + length bs) m"
proof (induction bs arbitrary: m i)
  case Nil
  then show ?case by simp
next
  case (Cons b bs)
  have len: "Suc i \<le> length (poke m i b)"
    using Cons.prems by (simp add: poke_within)
  have "write_bytes (poke m i b) (Suc i) bs =
      take (Suc i) (poke m i b) @ map Some bs @ drop (Suc i + length bs) (poke m i b)"
    by (rule Cons.IH [OF len])
  moreover have "take (Suc i) (poke m i b) = take i m @ [Some b]"
    using Cons.prems by (simp add: poke_within)
  moreover have "drop (Suc i + length bs) (poke m i b) = drop (Suc i + length bs) m"
    using Cons.prems by (simp add: poke_within add.commute)
  ultimately show ?case by simp
qed

lemma takeWhile_all: "NUL \<notin> set s \<Longrightarrow> takeWhile (\<lambda>c. c \<noteq> NUL) s = s"
  by (induction s) auto

lemma c_string_holds:
  "NUL \<notin> set out \<Longrightarrow> c_string (map Some out @ [Some NUL]) = out"
  by (induction out) (auto simp: c_string_def)

text \<open>
  One file appended: the three statements after \<^verbatim>\<open>ensure_buffer_capacity\<close> in the loop
  body, on a buffer that holds \<open>out\<close> and a file without NUL.
\<close>

lemma append_file_holds:
  fixes out contents :: string
  assumes "NUL \<notin> set contents"
  defines "m \<equiv> map Some out @ [Some NUL]"
  defines "b1 \<equiv> strcat_at m (length out) contents"
  defines "b2 \<equiv> poke b1 (length out + length contents) CHR 0x0A"
  shows "poke b2 (length out + length contents + 1) NUL =
         map Some (out @ contents @ [CHR 0x0A]) @ [Some NUL]"
proof -
  have "takeWhile (\<lambda>c. c \<noteq> Some NUL) (drop (length out) m) = []"
    by (simp add: m_def)
  then have "b1 = write_bytes m (length out) (contents @ [NUL])"
    by (simp add: b1_def strcat_at_def takeWhile_all [OF assms(1)])
  also have "\<dots> = map Some out @ map Some contents @ [Some NUL]"
    by (subst write_bytes_within) (simp_all add: m_def)
  finally have b1: "b1 = map Some (out @ contents) @ [Some NUL]"
    by simp
  have "b2 = map Some (out @ contents) @ [Some CHR 0x0A]"
    unfolding b2_def b1 by (subst poke_within) simp_all
  then have b2: "b2 = map Some (out @ contents @ [CHR 0x0A])"
    by simp
  show ?thesis
    unfolding b2 by (subst poke_within) simp_all
qed

subsection \<open>The bundle loops\<close>

lemma concat_readable_Cons:
  "concat_readable e dir (f # fs) =
     (case read_file_contents e dir (name f) of
        Inl d \<Rightarrow> [] | Inr contents \<Rightarrow> contents @ [CHR 0x0A]) @ concat_readable e dir fs"
  by (simp add: concat_readable_def)

lemma read_diagnostics_Cons:
  "read_diagnostics e dir (f # fs) =
     (case read_file_contents e dir (name f) of
        Inl d \<Rightarrow> [d] | Inr contents \<Rightarrow> []) @ read_diagnostics e dir fs"
  by (simp add: read_diagnostics_def)

lemma concat_readable_append:
  "concat_readable e dir (fs @ gs) = concat_readable e dir fs @ concat_readable e dir gs"
  by (simp add: concat_readable_def)

lemma read_diagnostics_append:
  "read_diagnostics e dir (fs @ gs) = read_diagnostics e dir fs @ read_diagnostics e dir gs"
  by (simp add: read_diagnostics_def)


lemma size_small: "n \<le> 2 ^ 63 \<Longrightarrow> n mod SIZE_MODULUS = n"
  by (simp add: SIZE_MODULUS_def)

lemma bundle_files_realloc_fails:
  assumes "read_file_contents e dir (name f) = Inr contents"
    and "ensure_buffer_capacity e (buffer_capacity st)
           ((current_size st + length contents + 2) mod SIZE_MODULUS) = Some (Inl d)"
  shows "bundle_files e dir (f # fs) (errs, st) = Some (errs @ [d], None)"
  using assms by (simp add: Let_def)

lemma bundle_files_appends:
  assumes "read_file_contents e dir (name f) = Inr contents"
    and "ensure_buffer_capacity e (buffer_capacity st)
           ((current_size st + length contents + 2) mod SIZE_MODULUS) = Some (Inr capacity)"
    and "size1 = (current_size st + length contents) mod SIZE_MODULUS"
    and "size2 = (size1 + 1) mod SIZE_MODULUS"
  shows "bundle_files e dir (f # fs) (errs, st) =
         bundle_files e dir fs
           (errs, \<lparr>buffer = poke (poke (strcat_at (buffer st) (current_size st) contents)
                                    size1 CHR 0x0A) size2 NUL,
                   buffer_capacity = capacity, current_size = size2\<rparr>)"
  using assms by (simp add: Let_def)

text \<open>
  The capacity through one loop, whatever the files hold: when the loop comes to its end,
  the capacity is still the initial size times a power of two, \<^verbatim>\<open>current_size\<close> has grown
  by the bytes appended, and they fit with their NUL.
\<close>

lemma bundle_files_capacity:
  assumes "capacity_ok st"
    and "current_size st + length (concat_readable e dir files) + 1 \<le> 2 ^ 63"
    and "bundle_files e dir files (errs, st) = Some (errs', Some st')"
  shows "capacity_ok st' \<and>
         current_size st' = current_size st + length (concat_readable e dir files)"
  using assms
proof (induction files arbitrary: st errs)
  case Nil
  then show ?case by (simp add: concat_readable_def)
next
  case (Cons f fs)
  show ?case
  proof (cases "read_file_contents e dir (name f)")
    case (Inl d)
    with Cons.prems have "bundle_files e dir fs (errs @ [d], st) = Some (errs', Some st')"
      and "current_size st + length (concat_readable e dir fs) + 1 \<le> 2 ^ 63"
      by (simp_all add: concat_readable_Cons)
    from Cons.IH [OF Cons.prems(1) this(2,1)] Inl show ?thesis
      by (simp add: concat_readable_Cons)
  next
    case (Inr contents)
    define needed where "needed = current_size st + length contents + 2"
    have bound: "needed + length (concat_readable e dir fs) \<le> 2 ^ 63"
      using Cons.prems(2) Inr by (simp add: concat_readable_Cons needed_def)
    then have small: "needed \<le> 2 ^ 63" by simp
    obtain j where j: "buffer_capacity st = INITIAL_BUFFER_SIZE * 2 ^ j"
      using Cons.prems(1) by (auto simp: capacity_ok_def)
    from ensure_buffer_capacity_returns [OF j small, of e]
    obtain k where k: "needed \<le> buffer_capacity st * 2 ^ k"
      "ensure_buffer_capacity e (buffer_capacity st) needed =
             Some (if 0 < k \<and> \<not> realloc_ok e (buffer_capacity st * 2 ^ k)
                   then Inl (Failed_to_reallocate_buffer (buffer_capacity st * 2 ^ k))
                   else Inr (buffer_capacity st * 2 ^ k))"
      by blast
    define st1 where "st1 =
      \<lparr>buffer = poke (poke (strcat_at (buffer st) (current_size st) contents)
                   (current_size st + length contents) CHR 0x0A)
                   (current_size st + length contents + 1) NUL,
       buffer_capacity = buffer_capacity st * 2 ^ k,
       current_size = current_size st + length contents + 1\<rparr>"
    have sizes: "(current_size st + length contents + 2) mod SIZE_MODULUS = needed"
      "(current_size st + length contents) mod SIZE_MODULUS = current_size st + length contents"
      "(current_size st + length contents + 1) mod SIZE_MODULUS =
         current_size st + length contents + 1"
      using small by (simp_all add: needed_def size_small)
    have run: "bundle_files e dir fs (errs, st1) = Some (errs', Some st')"
    proof (cases "0 < k \<and> \<not> realloc_ok e (buffer_capacity st * 2 ^ k)")
      case True
      have "ensure_buffer_capacity e (buffer_capacity st)
           ((current_size st + length contents + 2) mod SIZE_MODULUS) =
           Some (Inl (Failed_to_reallocate_buffer (buffer_capacity st * 2 ^ k)))"
        unfolding sizes(1) using True k(2) by simp
      from bundle_files_realloc_fails [OF Inr this] Cons.prems(3) show ?thesis
        by simp
    next
      case False
      have "ensure_buffer_capacity e (buffer_capacity st)
           ((current_size st + length contents + 2) mod SIZE_MODULUS) =
           Some (Inr (buffer_capacity st * 2 ^ k))"
        unfolding sizes(1) using False k(2) by auto
      from bundle_files_appends [OF Inr this refl refl, of fs errs] Cons.prems(3)
      show ?thesis
        by (simp only: sizes st1_def)
    qed
    have ok1: "capacity_ok st1"
      using k(1) j by (auto simp: capacity_ok_def st1_def needed_def power_add mult.assoc
          intro: exI [of _ "j + k"])
    have "current_size st1 + length (concat_readable e dir fs) + 1 \<le> 2 ^ 63"
      using bound by (simp add: st1_def needed_def)
    from Cons.IH [OF ok1 this run] Inr show ?thesis
      by (simp add: concat_readable_Cons st1_def)
  qed
qed

text \<open>
  The contents through one loop, when every \<^verbatim>\<open>realloc\<close> succeeds and no file that can be
  read holds a NUL: the loop comes to its end, the buffer holds what it held followed by
  the contents of the readable files, each with its newline, and the messages are those of
  the files that cannot be read.
\<close>

lemma bundle_files_holds:
  assumes "buffer_holds out st" and "capacity_ok st" and "\<forall>n. realloc_ok e n"
    and "\<forall>f\<in>set files. \<forall>c. read_file_contents e dir (name f) = Inr c \<longrightarrow> NUL \<notin> set c"
    and "length out + length (concat_readable e dir files) + 1 \<le> 2 ^ 63"
  shows "\<exists>st'. bundle_files e dir files (errs, st) =
             Some (errs @ read_diagnostics e dir files, Some st') \<and>
           buffer_holds (out @ concat_readable e dir files) st' \<and> capacity_ok st'"
  using assms(1,2,4,5)
proof (induction files arbitrary: out st errs)
  case Nil
  then show ?case by (simp add: concat_readable_def read_diagnostics_def)
next
  case (Cons f fs)
  show ?case
  proof (cases "read_file_contents e dir (name f)")
    case (Inl d)
    have "\<exists>st'. bundle_files e dir fs (errs @ [d], st) =
             Some ((errs @ [d]) @ read_diagnostics e dir fs, Some st') \<and>
           buffer_holds (out @ concat_readable e dir fs) st' \<and> capacity_ok st'"
      using Cons.prems Inl by (intro Cons.IH) (simp_all add: concat_readable_Cons)
    with Inl show ?thesis
      by (simp add: concat_readable_Cons read_diagnostics_Cons)
  next
    case (Inr contents)
    have nul: "NUL \<notin> set contents"
      using Cons.prems(3) Inr by simp
    have cur: "current_size st = length out" and buf: "buffer st = map Some out @ [Some NUL]"
      and out: "NUL \<notin> set out"
      using Cons.prems(1) by (simp_all add: buffer_holds_def)
    define needed where "needed = length out + length contents + 2"
    have bound: "needed + length (concat_readable e dir fs) \<le> 2 ^ 63"
      using Cons.prems(4) Inr by (simp add: concat_readable_Cons needed_def)
    then have small: "needed \<le> 2 ^ 63" by simp
    obtain j where j: "buffer_capacity st = INITIAL_BUFFER_SIZE * 2 ^ j"
      using Cons.prems(2) by (auto simp: capacity_ok_def)
    from ensure_buffer_capacity_returns [OF j small, of e] assms(3)
    obtain k where k: "needed \<le> buffer_capacity st * 2 ^ k"
      "ensure_buffer_capacity e (buffer_capacity st) needed =
         Some (Inr (buffer_capacity st * 2 ^ k))"
      by auto
    define st1 where "st1 =
      \<lparr>buffer = map Some (out @ contents @ [CHR 0x0A]) @ [Some NUL],
       buffer_capacity = buffer_capacity st * 2 ^ k,
       current_size = length out + length contents + 1\<rparr>"
    have sizes: "(length out + length contents + 2) mod SIZE_MODULUS = needed"
      "(length out + length contents) mod SIZE_MODULUS = length out + length contents"
      "(length out + length contents + 1) mod SIZE_MODULUS = length out + length contents + 1"
      using small by (simp_all add: needed_def size_small)
    have "ensure_buffer_capacity e (buffer_capacity st)
           ((current_size st + length contents + 2) mod SIZE_MODULUS) =
           Some (Inr (buffer_capacity st * 2 ^ k))"
      using k(2) by (simp only: cur sizes)
    from bundle_files_appends [OF Inr this refl refl, of fs errs]
    have step: "bundle_files e dir (f # fs) (errs, st) = bundle_files e dir fs (errs, st1)"
      by (simp only: cur buf sizes st1_def append_file_holds [OF nul, of out])
    have holds1: "buffer_holds (out @ contents @ [CHR 0x0A]) st1"
      using out nul by (simp add: buffer_holds_def st1_def NUL_def)
    have ok1: "capacity_ok st1"
      using k(1) j by (auto simp: capacity_ok_def st1_def needed_def power_add mult.assoc
          intro: exI [of _ "j + k"])
    have "\<exists>st'. bundle_files e dir fs (errs, st1) =
             Some (errs @ read_diagnostics e dir fs, Some st') \<and>
           buffer_holds ((out @ contents @ [CHR 0x0A]) @ concat_readable e dir fs) st' \<and>
           capacity_ok st'"
      using Cons.prems(3) bound holds1 ok1
      by (intro Cons.IH) (simp_all add: needed_def)
    with Inr step show ?thesis
      by (simp add: concat_readable_Cons read_diagnostics_Cons)
  qed
qed

subsection \<open>The capacity of the bundle buffer\<close>

lemma initial_capacity_ok: "capacity_ok initial_bundle_state"
  by (auto simp: capacity_ok_def initial_bundle_state_def INITIAL_BUFFER_SIZE_def
      intro: exI [of _ 0])

text \<open>
  Claim C7 as stated fails: with the initial capacity of 4096 bytes and a request of
  \<open>2 ^ 63 + 1\<close> bytes the doubling wraps around to 0 in \<^verbatim>\<open>size_t\<close>, and the operation
  never returns, in any environment.
\<close>

theorem C7_request_above_2_63_never_returns:
  "ensure_buffer_capacity scenario_env INITIAL_BUFFER_SIZE (2 ^ 63 + 1) = None"
proof -
  have "INITIAL_BUFFER_SIZE < 2 ^ 63 + 1"
    by (simp add: INITIAL_BUFFER_SIZE_def)
  then show ?thesis
    unfolding ensure_buffer_capacity_def grow_capacity_diverges by simp
qed

text \<open>
  Claim C7, amended. Let the capacity be the initial size times a power of two and the
  request at most \<open>2 ^ 63\<close> bytes. Then the operation returns. When it returns a buffer,
  the new capacity is the initial size times a power of two and at least the request; it
  is the old capacity when the request does not exceed that, and otherwise the old capacity
  doubled one or more times, one doubling less being too small. When it returns no buffer,
  the request exceeded the capacity and \<^verbatim>\<open>realloc\<close> failed. In the loop the request is
  the bytes appended so far, plus those of the file, plus 2: at the start, and at the end
  of each loop that comes to its end within \<open>2 ^ 63\<close> bytes, the capacity is the initial
  size times a power of two and exceeds the number of bytes appended so far.
\<close>

theorem C7_ensure_buffer_capacity:
  "(capacity = INITIAL_BUFFER_SIZE * 2 ^ j \<and> needed \<le> 2 ^ 63 \<longrightarrow>
      (\<exists>r. ensure_buffer_capacity e capacity needed = Some r) \<and>
      (\<forall>c'. ensure_buffer_capacity e capacity needed = Some (Inr c') \<longrightarrow>
         (\<exists>i. c' = INITIAL_BUFFER_SIZE * 2 ^ i) \<and> needed \<le> c' \<and>
         (needed \<le> capacity \<longrightarrow> c' = capacity) \<and>
         (capacity < needed \<longrightarrow>
            (\<exists>k>0. c' = capacity * 2 ^ k \<and> capacity * 2 ^ (k - 1) < needed))) \<and>
      (\<forall>d. ensure_buffer_capacity e capacity needed = Some (Inl d) \<longrightarrow>
         capacity < needed \<and> (\<exists>n. d = Failed_to_reallocate_buffer n \<and> \<not> realloc_ok e n)))
   \<and> capacity_ok initial_bundle_state
   \<and> (capacity_ok st \<and>
       current_size st + length (concat_readable e dir files) + 1 \<le> 2 ^ 63 \<and>
       bundle_files e dir files (errs, st) = Some (errs', Some st') \<longrightarrow>
         capacity_ok st' \<and>
         current_size st' = current_size st + length (concat_readable e dir files))"
proof (intro conjI impI)
  assume a: "capacity = INITIAL_BUFFER_SIZE * 2 ^ j \<and> needed \<le> 2 ^ 63"
  then obtain k where k: "needed \<le> capacity * 2 ^ k" "0 < k \<longleftrightarrow> capacity < needed"
    "0 < k \<longrightarrow> capacity * 2 ^ (k - 1) < needed"
    "ensure_buffer_capacity e capacity needed =
       Some (if 0 < k \<and> \<not> realloc_ok e (capacity * 2 ^ k)
             then Inl (Failed_to_reallocate_buffer (capacity * 2 ^ k))
             else Inr (capacity * 2 ^ k))"
    using ensure_buffer_capacity_returns [of capacity j needed e] by blast
  have pow: "capacity * 2 ^ k = INITIAL_BUFFER_SIZE * 2 ^ (j + k)"
    using a by (simp add: power_add)
  show "\<exists>r. ensure_buffer_capacity e capacity needed = Some r"
    using k(4) by blast
  show "\<forall>c'. ensure_buffer_capacity e capacity needed = Some (Inr c') \<longrightarrow>
         (\<exists>i. c' = INITIAL_BUFFER_SIZE * 2 ^ i) \<and> needed \<le> c' \<and>
         (needed \<le> capacity \<longrightarrow> c' = capacity) \<and>
         (capacity < needed \<longrightarrow>
            (\<exists>k>0. c' = capacity * 2 ^ k \<and> capacity * 2 ^ (k - 1) < needed))"
  proof (intro allI impI)
    fix c'
    assume "ensure_buffer_capacity e capacity needed = Some (Inr c')"
    with k(4) have c': "c' = capacity * 2 ^ k"
      by (simp split: if_splits)
    have "\<exists>i. c' = INITIAL_BUFFER_SIZE * 2 ^ i"
      using pow c' by blast
    moreover have "needed \<le> c'"
      using k(1) c' by simp
    moreover have "needed \<le> capacity \<longrightarrow> c' = capacity"
      using k(2) c' by auto
    moreover have "capacity < needed \<longrightarrow>
        (\<exists>k>0. c' = capacity * 2 ^ k \<and> capacity * 2 ^ (k - 1) < needed)"
      using k(2,3) c' by blast
    ultimately show "(\<exists>i. c' = INITIAL_BUFFER_SIZE * 2 ^ i) \<and> needed \<le> c' \<and>
         (needed \<le> capacity \<longrightarrow> c' = capacity) \<and>
         (capacity < needed \<longrightarrow>
            (\<exists>k>0. c' = capacity * 2 ^ k \<and> capacity * 2 ^ (k - 1) < needed))"
      by blast
  qed
  show "\<forall>d. ensure_buffer_capacity e capacity needed = Some (Inl d) \<longrightarrow>
         capacity < needed \<and> (\<exists>n. d = Failed_to_reallocate_buffer n \<and> \<not> realloc_ok e n)"
    using k(2,4) by (auto split: if_splits)
next
  show "capacity_ok initial_bundle_state"
    by (rule initial_capacity_ok)
next
  assume a: "capacity_ok st \<and>
       current_size st + length (concat_readable e dir files) + 1 \<le> 2 ^ 63 \<and>
       bundle_files e dir files (errs, st) = Some (errs', Some st')"
  then have "capacity_ok st' \<and>
         current_size st' = current_size st + length (concat_readable e dir files)"
    by (intro bundle_files_capacity) blast+
  then show "capacity_ok st'"
    and "current_size st' = current_size st + length (concat_readable e dir files)"
    by blast+
qed

lemma scenario_read_fn_a:
  "read_file_contents scenario_env ''scripts'' ''fn.a'' = Inr ''# scripts/fn.a''"
  by (simp add: read_file_contents_def scenario_env_def PATH_MAX_def)

lemma scenario_bundle_fn_a:
  "bundle_files scenario_env ''scripts'' [\<lparr>name = ''fn.a'', order_num = - 1, bytesize = 4\<rparr>]
     ([], initial_bundle_state) =
   Some ([], Some \<lparr>buffer = map Some ''# scripts/fn.a\<newline>'' @ [Some NUL],
                   buffer_capacity = 4096, current_size = 15\<rparr>)"
  by (simp add: scenario_read_fn_a initial_bundle_state_def ensure_buffer_capacity_def
      INITIAL_BUFFER_SIZE_def SIZE_MODULUS_def strcat_at_def poke_def NUL_def)

theorem C7_ensure_buffer_capacity_witness:
  "(4096::nat) = INITIAL_BUFFER_SIZE * 2 ^ 0 \<and> (10000::nat) \<le> 2 ^ 63
   \<and> ensure_buffer_capacity scenario_env 4096 10000 = Some (Inr 16384)
   \<and> (16384::nat) = INITIAL_BUFFER_SIZE * 2 ^ 2 \<and> (10000::nat) \<le> 16384
   \<and> (4096::nat) < 10000 \<and> (16384::nat) = 4096 * 2 ^ 2 \<and> (4096::nat) * 2 ^ (2 - 1) < 10000
   \<and> ensure_buffer_capacity scenario_env 4096 100 = Some (Inr 4096)
   \<and> capacity_ok initial_bundle_state
   \<and> current_size initial_bundle_state +
       length (concat_readable scenario_env ''scripts''
         [\<lparr>name = ''fn.a'', order_num = - 1, bytesize = 4\<rparr>]) + 1 \<le> 2 ^ 63
   \<and> bundle_files scenario_env ''scripts'' [\<lparr>name = ''fn.a'', order_num = - 1, bytesize = 4\<rparr>]
       ([], initial_bundle_state) =
     Some ([], Some \<lparr>buffer = map Some ''# scripts/fn.a\<newline>'' @ [Some NUL],
                     buffer_capacity = 4096, current_size = 15\<rparr>)
   \<and> capacity_ok \<lparr>buffer = map Some ''# scripts/fn.a\<newline>'' @ [Some NUL],
                   buffer_capacity = 4096, current_size = 15\<rparr>"
proof -
  have g: "ensure_buffer_capacity scenario_env 4096 10000 = Some (Inr 16384)"
    "ensure_buffer_capacity scenario_env 4096 100 = Some (Inr 4096)"
    by (simp_all add: ensure_buffer_capacity_def grow_capacity.simps SIZE_MODULUS_def
        scenario_env_def)
  have n: "(4096::nat) = INITIAL_BUFFER_SIZE * 2 ^ 0" "(10000::nat) \<le> 2 ^ 63"
    "(16384::nat) = INITIAL_BUFFER_SIZE * 2 ^ 2"
    by (simp_all add: INITIAL_BUFFER_SIZE_def)
  have c: "concat_readable scenario_env ''scripts''
         [\<lparr>name = ''fn.a'', order_num = - 1, bytesize = 4\<rparr>] = ''# scripts/fn.a\<newline>''"
    by (simp add: concat_readable_def scenario_read_fn_a)
  have b: "current_size initial_bundle_state +
       length (concat_readable scenario_env ''scripts''
         [\<lparr>name = ''fn.a'', order_num = - 1, bytesize = 4\<rparr>]) + 1 \<le> 2 ^ 63"
    by (simp add: c initial_bundle_state_def)
  note C = C7_ensure_buffer_capacity [of 4096 0 10000 scenario_env initial_bundle_state
      "''scripts''" "[\<lparr>name = ''fn.a'', order_num = - 1, bytesize = 4\<rparr>]" "[]" "[]"
      "\<lparr>buffer = map Some ''# scripts/fn.a\<newline>'' @ [Some NUL],
        buffer_capacity = 4096, current_size = 15\<rparr>"]
  have i: "capacity_ok initial_bundle_state"
    using C by blast
  have "capacity_ok \<lparr>buffer = map Some ''# scripts/fn.a\<newline>'' @ [Some NUL],
                   buffer_capacity = 4096, current_size = 15\<rparr>"
    using C i b scenario_bundle_fn_a by blast
  then show ?thesis
    using g n i b scenario_bundle_fn_a by simp
qed

subsection \<open>\<^verbatim>\<open>strcmp\<close> and the comparators as orders\<close>

lemma of_char_NUL: "(of_char c :: nat) = 0 \<longleftrightarrow> c = NUL"
proof -
  have "(of_char c :: nat) = of_char NUL \<longleftrightarrow> c = NUL"
    by (simp only: of_char_eq_iff)
  then show ?thesis by (simp add: NUL_def)
qed

lemma strcmp_same: "strcmp a a = 0"
  by (induction a) simp_all

lemma strcmp_total: "NUL \<notin> set a \<Longrightarrow> NUL \<notin> set b \<Longrightarrow> \<not> strcmp a b \<le> 0 \<Longrightarrow> strcmp b a \<le> 0"
  by (induction a b rule: strcmp.induct) (auto split: if_splits)

lemma strcmp_trans:
  "NUL \<notin> set a \<Longrightarrow> NUL \<notin> set b \<Longrightarrow> NUL \<notin> set c \<Longrightarrow>
   strcmp a b \<le> 0 \<Longrightarrow> strcmp b c \<le> 0 \<Longrightarrow> strcmp a c \<le> 0"
proof (induction a b arbitrary: c rule: strcmp.induct)
  case 1
  then show ?case by simp
next
  case (2 y ys)
  then show ?case by (cases c) auto
next
  case (3 x xs)
  then show ?case by (simp add: of_char_NUL)
next
  case (4 x xs y ys)
  show ?case
  proof (cases c)
    case Nil
    with 4 show ?thesis by (simp add: of_char_NUL split: if_splits)
  next
    case (Cons z zs)
    with 4 show ?thesis
      by (auto split: if_splits)
  qed
qed

lemma strcmp_antisym:
  "NUL \<notin> set a \<Longrightarrow> NUL \<notin> set b \<Longrightarrow> strcmp a b \<le> 0 \<Longrightarrow> strcmp b a \<le> 0 \<Longrightarrow> a = b"
  by (induction a b rule: strcmp.induct) (auto simp: of_char_NUL split: if_splits)

subsection \<open>\<^verbatim>\<open>qsort\<close> with a consistent comparator\<close>

lemma mset_qsort_merge: "mset (qsort_merge cmp xs ys) = mset xs + mset ys"
  by (induction cmp xs ys rule: qsort_merge.induct) simp_all

lemma set_qsort_merge: "set (qsort_merge cmp xs ys) = set xs \<union> set ys"
  by (induction cmp xs ys rule: qsort_merge.induct) auto

lemma mset_msort_with_tmp: "mset (msort_with_tmp cmp xs) = mset xs"
proof (induction cmp xs rule: msort_with_tmp.induct)
  case (1 cmp b)
  show ?case
  proof (cases "length b \<le> 1")
    case True
    then show ?thesis by (simp add: msort_with_tmp.simps)
  next
    case False
    have "mset (take (length b div 2) b) + mset (drop (length b div 2) b) = mset b"
      by (simp add: union_code)
    with False 1 show ?thesis
      by (subst msort_with_tmp.simps) (simp add: mset_qsort_merge)
  qed
qed

lemma mset_qsort: "mset (qsort cmp xs) = mset xs"
  by (simp add: qsort_def mset_msort_with_tmp)

lemma set_qsort: "set (qsort cmp xs) = set xs"
  using mset_qsort [of cmp xs] by (rule mset_eq_setD)

text \<open>
  On a set of elements on which the comparator is consistent (\<open>cmp x y \<le> 0\<close> is total
  and transitive there), the merge keeps two sorted runs sorted, and the result of
  \<^verbatim>\<open>qsort\<close> is in ascending order.
\<close>

lemma sorted_qsort_merge:
  assumes tot: "\<forall>x\<in>S. \<forall>y\<in>S. \<not> cmp x y \<le> 0 \<longrightarrow> cmp y x \<le> 0"
    and trans: "\<forall>x\<in>S. \<forall>y\<in>S. \<forall>z\<in>S. cmp x y \<le> 0 \<longrightarrow> cmp y z \<le> 0 \<longrightarrow> cmp x z \<le> 0"
    and "set xs \<subseteq> S" and "set ys \<subseteq> S"
    and "sorted_wrt (\<lambda>x y. cmp x y \<le> 0) xs" and "sorted_wrt (\<lambda>x y. cmp x y \<le> 0) ys"
  shows "sorted_wrt (\<lambda>x y. cmp x y \<le> 0) (qsort_merge cmp xs ys)"
  using assms(3-)
proof (induction xs arbitrary: ys)
  case Nil
  then show ?case by simp
next
  case (Cons x b1)
  note outer = Cons.IH
  have x: "x \<in> S" "set b1 \<subseteq> S" "\<forall>z\<in>set b1. cmp x z \<le> 0"
    "sorted_wrt (\<lambda>x y. cmp x y \<le> 0) b1"
    using Cons.prems(1,3) by simp_all
  from Cons.prems(2,4) show ?case
  proof (induction ys)
    case Nil
    with Cons.prems(3) show ?case by simp
  next
    case (Cons y b2)
    have y: "y \<in> S" "set b2 \<subseteq> S" "\<forall>z\<in>set b2. cmp y z \<le> 0"
      "sorted_wrt (\<lambda>x y. cmp x y \<le> 0) b2"
      using Cons.prems by simp_all
    show ?case
    proof (cases "cmp x y \<le> 0")
      case True
      have "\<forall>z\<in>set b2. cmp x z \<le> 0"
      proof
        fix z assume "z \<in> set b2"
        then have "cmp y z \<le> 0" "z \<in> S"
          using y(2,3) by blast+
        with True x(1) y(1) trans show "cmp x z \<le> 0"
          by blast
      qed
      with True x(3) have "\<forall>z\<in>set (qsort_merge cmp b1 (y # b2)). cmp x z \<le> 0"
        unfolding set_qsort_merge by auto
      moreover have "sorted_wrt (\<lambda>x y. cmp x y \<le> 0) (qsort_merge cmp b1 (y # b2))"
        by (rule outer [OF x(2) Cons.prems(1) x(4) Cons.prems(2)])
      ultimately show ?thesis
        using True by simp
    next
      case False
      with tot x(1) y(1) have yx: "cmp y x \<le> 0"
        by blast
      have "\<forall>z\<in>set b1. cmp y z \<le> 0"
      proof
        fix z assume "z \<in> set b1"
        then have "cmp x z \<le> 0" "z \<in> S"
          using x(2,3) by blast+
        with yx x(1) y(1) trans show "cmp y z \<le> 0"
          by blast
      qed
      with yx y(3) have "\<forall>z\<in>set (qsort_merge cmp (x # b1) b2). cmp y z \<le> 0"
        unfolding set_qsort_merge by auto
      moreover have "sorted_wrt (\<lambda>x y. cmp x y \<le> 0) (qsort_merge cmp (x # b1) b2)"
        by (rule Cons.IH [OF y(2,4)])
      ultimately show ?thesis
        using False by simp
    qed
  qed
qed

lemma sorted_msort_with_tmp:
  assumes tot: "\<forall>x\<in>S. \<forall>y\<in>S. \<not> cmp x y \<le> 0 \<longrightarrow> cmp y x \<le> 0"
    and trans: "\<forall>x\<in>S. \<forall>y\<in>S. \<forall>z\<in>S. cmp x y \<le> 0 \<longrightarrow> cmp y z \<le> 0 \<longrightarrow> cmp x z \<le> 0"
    and "set xs \<subseteq> S"
  shows "sorted_wrt (\<lambda>x y. cmp x y \<le> 0) (msort_with_tmp cmp xs)"
  using assms(3)
proof (induction "length xs" arbitrary: xs rule: less_induct)
  case less
  show ?case
  proof (cases "length xs \<le> 1")
    case True
    then have "sorted_wrt (\<lambda>x y. cmp x y \<le> 0) xs"
      by (cases xs) (simp_all add: le_Suc_eq)
    with True show ?thesis by (simp add: msort_with_tmp.simps)
  next
    case False
    let ?l = "take (length xs div 2) xs" and ?r = "drop (length xs div 2) xs"
    have sub: "set ?l \<subseteq> S" "set ?r \<subseteq> S"
      using less.prems by (meson set_take_subset set_drop_subset subset_trans)+
    have "set (msort_with_tmp cmp zs) = set zs" for zs
      using mset_msort_with_tmp [of cmp zs] by (rule mset_eq_setD)
    with sub have sub': "set (msort_with_tmp cmp ?l) \<subseteq> S" "set (msort_with_tmp cmp ?r) \<subseteq> S"
      by simp_all
    have shorter: "length ?l < length xs" "length ?r < length xs"
      using False by simp_all
    have "sorted_wrt (\<lambda>x y. cmp x y \<le> 0) (msort_with_tmp cmp ?l)"
      by (rule less.hyps [OF shorter(1) sub(1)])
    moreover have "sorted_wrt (\<lambda>x y. cmp x y \<le> 0) (msort_with_tmp cmp ?r)"
      by (rule less.hyps [OF shorter(2) sub(2)])
    ultimately have "sorted_wrt (\<lambda>x y. cmp x y \<le> 0)
        (qsort_merge cmp (msort_with_tmp cmp ?l) (msort_with_tmp cmp ?r))"
      by (intro sorted_qsort_merge [OF tot trans sub'])
    with False show ?thesis
      by (subst msort_with_tmp.simps) simp
  qed
qed

lemma sorted_qsort:
  assumes "\<forall>x\<in>S. \<forall>y\<in>S. \<not> cmp x y \<le> 0 \<longrightarrow> cmp y x \<le> 0"
    and "\<forall>x\<in>S. \<forall>y\<in>S. \<forall>z\<in>S. cmp x y \<le> 0 \<longrightarrow> cmp y z \<le> 0 \<longrightarrow> cmp x z \<le> 0"
    and "set xs \<subseteq> S"
  shows "sorted_wrt (\<lambda>x y. cmp x y \<le> 0) (qsort cmp xs)"
  unfolding qsort_def by (rule sorted_msort_with_tmp [OF assms])

subsection \<open>The comparators on the entries of a directory\<close>

lemma sint_eq_iff_32: "sint a = sint b \<longleftrightarrow> a = b" for a b :: "32 word"
proof
  assume "sint a = sint b"
  then show "a = b" by (simp only: signed_word_eqI)
qed simp

lemma compare_ordered_files_le:
  assumes "- 1 \<le> sint (order_num a)" and "- 1 \<le> sint (order_num b)"
    and "\<not> (order_num a = 2147483647 \<and> order_num b = - 1)"
  shows "compare_ordered_files a b \<le> 0 \<longleftrightarrow> key_before a b"
proof (cases "order_num a = order_num b")
  case True
  then show ?thesis
    by (simp add: compare_ordered_files_def key_before_def)
next
  case False
  then have "sint (order_num a) \<noteq> sint (order_num b)"
    by (simp add: sint_eq_iff_32)
  with False compare_ordered_files_sign(1) [OF assms False] show ?thesis
    by (auto simp: key_before_def)
qed

text \<open>
  A set of entries on which the comparator is consistent: the order numbers are \<open>-1\<close> or
  more, the names are C strings, and the largest order number and the absent one do not
  both occur.
\<close>

lemma key_before_total:
  assumes "NUL \<notin> set (name a)" and "NUL \<notin> set (name b)" and "\<not> key_before a b"
  shows "key_before b a"
proof (cases "order_num a = order_num b")
  case True
  with assms strcmp_total [of "name a" "name b"] show ?thesis
    by (simp add: key_before_def)
next
  case False
  then have "sint (order_num a) \<noteq> sint (order_num b)"
    by (simp add: sint_eq_iff_32)
  with assms(3) show ?thesis
    by (auto simp: key_before_def)
qed

lemma key_before_trans:
  assumes "NUL \<notin> set (name a)" and "NUL \<notin> set (name b)" and "NUL \<notin> set (name c)"
    and "key_before a b" and "key_before b c"
  shows "key_before a c"
  using assms strcmp_trans [of "name a" "name b" "name c"]
  by (auto simp: key_before_def)

lemma sorted_qsort_entries:
  assumes "\<forall>f\<in>set xs. - 1 \<le> sint (order_num f) \<and> NUL \<notin> set (name f)"
    and "(\<forall>f\<in>set xs. order_num f \<noteq> 2147483647) \<or> (\<forall>f\<in>set xs. order_num f \<noteq> - 1)"
  shows "sorted_wrt key_before (qsort compare_ordered_files xs)"
proof -
  have le: "compare_ordered_files a b \<le> 0 \<longleftrightarrow> key_before a b"
    if "a \<in> set xs" and "b \<in> set xs" for a b
    using that assms by (intro compare_ordered_files_le) blast+
  have tot: "\<forall>x\<in>set xs. \<forall>y\<in>set xs.
      \<not> compare_ordered_files x y \<le> 0 \<longrightarrow> compare_ordered_files y x \<le> 0"
    using le key_before_total assms(1) by blast
  have trans: "\<forall>x\<in>set xs. \<forall>y\<in>set xs. \<forall>z\<in>set xs.
      compare_ordered_files x y \<le> 0 \<longrightarrow> compare_ordered_files y z \<le> 0 \<longrightarrow>
      compare_ordered_files x z \<le> 0"
    using le key_before_trans assms(1) by blast
  have "sorted_wrt (\<lambda>x y. compare_ordered_files x y \<le> 0) (qsort compare_ordered_files xs)"
    by (rule sorted_qsort [OF tot trans]) simp
  then show ?thesis
  proof (rule sorted_wrt_mono_rel [rotated])
    fix x y
    assume "x \<in> set (qsort compare_ordered_files xs)"
      and "y \<in> set (qsort compare_ordered_files xs)"
      and "compare_ordered_files x y \<le> 0"
    then show "key_before x y"
      using le by (simp add: set_qsort)
  qed
qed

subsection \<open>The arrays after the scan\<close>

lemma sint_eq_uint_32:
  fixes w :: "32 word"
  assumes "0 \<le> sint w"
  shows "sint w = uint w"
proof -
  have "uint w = uint (word_of_int (sint w) :: 32 word)"
    by simp
  also have "\<dots> = take_bit 32 (sint w)"
    by (simp only: uint_word_of_int_eq ) simp
  also have "\<dots> = sint w"
    using assms sint_lt [of w] by (simp add: take_bit_int_eq_self)
  finally show ?thesis by simp
qed

lemma low_test:
  fixes w cutoff :: "32 word"
  assumes "w = - 1 \<or> 0 <=s w"
  shows "(0 <=s w \<and> w < cutoff) \<longleftrightarrow> (w \<noteq> - 1 \<and> sint w < uint cutoff)"
    and "\<not> (0 <=s w \<and> w < cutoff) \<Longrightarrow> cutoff \<le> w"
proof -
  have eq: "sint w = uint w" if "0 <=s w"
    using that by (intro sint_eq_uint_32) (simp add: word_sle_eq)
  have m: "\<not> 0 <=s (- 1 :: 32 word)"
    by (simp add: word_sle_eq)
  show "(0 <=s w \<and> w < cutoff) \<longleftrightarrow> (w \<noteq> - 1 \<and> sint w < uint cutoff)"
    using assms eq m by (auto simp: word_less_def)
  show "cutoff \<le> w" if "\<not> (0 <=s w \<and> w < cutoff)"
  proof (cases "w = - 1")
    case True
    have "unat cutoff < 2 ^ 32"
      using unsigned_less [of cutoff] by simp
    with True show ?thesis
      by (simp add: word_le_nat_alt unat_minus_one_32)
  next
    case False
    with assms that show ?thesis by auto
  qed
qed

lemma scan_entry_arrays:
  "lower_files (scan_entry cutoff p d) =
     (if d \<noteq> ''.'' \<and> d \<noteq> ''..'' \<and> take 5 d \<noteq> ''skip.'' \<and>
         partition_rank cutoff (hd (listed_entries [d])) = 0 \<and>
         length (lower_files p) < MAX_FILES
      then lower_files p @ [hd (listed_entries [d])] else lower_files p)"
  "upper_files (scan_entry cutoff p d) =
     (if d \<noteq> ''.'' \<and> d \<noteq> ''..'' \<and> take 5 d \<noteq> ''skip.'' \<and>
         partition_rank cutoff (hd (listed_entries [d])) \<noteq> 0 \<and>
         length (upper_files p) < MAX_FILES
      then upper_files p @ [hd (listed_entries [d])] else upper_files p)"
  using low_test [OF extract_order_number_cases [of d], of cutoff]
  by (auto simp: scan_entry_def Let_def listed_entries_def partition_rank_def)

lemma listed_entries_Cons:
  "listed_entries (d # names) = listed_entries [d] @ listed_entries names"
  by (simp add: listed_entries_def)

lemma listed_entries_single:
  "listed_entries [d] =
     (if d \<noteq> ''.'' \<and> d \<noteq> ''..'' \<and> take 5 d \<noteq> ''skip.''
      then [hd (listed_entries [d])] else [])"
  by (simp add: listed_entries_def)

lemma scan_step_take:
  assumes "length xs \<le> n"
  shows "take n ((if c \<and> P e \<and> length xs < n then xs @ [e] else xs) @ filter P rest) =
         take n (xs @ filter P ((if c then [e] else []) @ rest))"
proof (cases "length xs < n")
  case True
  then show ?thesis by simp
next
  case False
  with assms have "length xs = n" by simp
  then show ?thesis by simp
qed

lemma foldl_scan_lower:
  assumes "length (lower_files p) \<le> MAX_FILES"
  shows "lower_files (foldl (scan_entry cutoff) p names) =
         take MAX_FILES (lower_files p @
           filter (\<lambda>f. partition_rank cutoff f = 0) (listed_entries names))"
  using assms
proof (induction names arbitrary: p)
  case Nil
  then show ?case by (simp add: listed_entries_def)
next
  case (Cons d names)
  let ?P = "\<lambda>f. partition_rank cutoff f = 0"
  let ?c = "d \<noteq> ''.'' \<and> d \<noteq> ''..'' \<and> take 5 d \<noteq> ''skip.''"
  let ?e = "hd (listed_entries [d])"
  have len: "length (lower_files (scan_entry cutoff p d)) \<le> MAX_FILES"
    using Cons.prems by (rule scan_entry_length)
  have "lower_files (foldl (scan_entry cutoff) p (d # names)) =
      take MAX_FILES (lower_files (scan_entry cutoff p d) @ filter ?P (listed_entries names))"
    using Cons.IH [OF len] by simp
  also have "\<dots> = take MAX_FILES
      ((if ?c \<and> ?P ?e \<and> length (lower_files p) < MAX_FILES
        then lower_files p @ [?e] else lower_files p) @ filter ?P (listed_entries names))"
    by (simp only: scan_entry_arrays(1) conj_assoc)
  also have "\<dots> = take MAX_FILES (lower_files p @
      filter ?P ((if ?c then [?e] else []) @ listed_entries names))"
    by (rule scan_step_take [OF Cons.prems])
  also have "(if ?c then [?e] else []) = listed_entries [d]"
    by (rule listed_entries_single [symmetric])
  finally show ?case
    by (simp only: listed_entries_Cons [of d names])
qed

lemma foldl_scan_upper:
  assumes "length (upper_files p) \<le> MAX_FILES"
  shows "upper_files (foldl (scan_entry cutoff) p names) =
         take MAX_FILES (upper_files p @
           filter (\<lambda>f. partition_rank cutoff f \<noteq> 0) (listed_entries names))"
  using assms
proof (induction names arbitrary: p)
  case Nil
  then show ?case by (simp add: listed_entries_def)
next
  case (Cons d names)
  let ?P = "\<lambda>f. partition_rank cutoff f \<noteq> 0"
  let ?c = "d \<noteq> ''.'' \<and> d \<noteq> ''..'' \<and> take 5 d \<noteq> ''skip.''"
  let ?e = "hd (listed_entries [d])"
  have len: "length (upper_files (scan_entry cutoff p d)) \<le> MAX_FILES"
    using Cons.prems by (rule scan_entry_length)
  have "upper_files (foldl (scan_entry cutoff) p (d # names)) =
      take MAX_FILES (upper_files (scan_entry cutoff p d) @ filter ?P (listed_entries names))"
    using Cons.IH [OF len] by simp
  also have "\<dots> = take MAX_FILES
      ((if ?c \<and> ?P ?e \<and> length (upper_files p) < MAX_FILES
        then upper_files p @ [?e] else upper_files p) @ filter ?P (listed_entries names))"
    by (simp only: scan_entry_arrays(2) conj_assoc)
  also have "\<dots> = take MAX_FILES (upper_files p @
      filter ?P ((if ?c then [?e] else []) @ listed_entries names))"
    by (rule scan_step_take [OF Cons.prems])
  also have "(if ?c then [?e] else []) = listed_entries [d]"
    by (rule listed_entries_single [symmetric])
  finally show ?case
    by (simp only: listed_entries_Cons [of d names])
qed

lemma scan_directory_arrays:
  "lower_files (scan_directory cutoff names) =
     take MAX_FILES (filter (\<lambda>f. partition_rank cutoff f = 0) (listed_entries names))"
  "upper_files (scan_directory cutoff names) =
     take MAX_FILES (filter (\<lambda>f. partition_rank cutoff f \<noteq> 0) (listed_entries names))"
  "unordered_files (scan_directory cutoff names) = []"
  using foldl_scan_lower [of empty_partitions cutoff names]
    foldl_scan_upper [of empty_partitions cutoff names]
  by (simp_all add: scan_directory_def foldl_scan_unordered empty_partitions_def)

subsection \<open>The order of the sorted arrays\<close>

lemma listed_entries_facts:
  assumes "f \<in> set (listed_entries names)"
  shows "- 1 \<le> sint (order_num f)"
    and "(\<forall>d\<in>set names. NUL \<notin> set d) \<Longrightarrow> NUL \<notin> set (name f)"
proof -
  from assms obtain d where d: "d \<in> set names"
    and f: "name f = take (MAX_FILENAME - 1) d" "order_num f = extract_order_number d"
    by (auto simp: listed_entries_def)
  show "- 1 \<le> sint (order_num f)"
    using extract_order_number_cases [of d] by (auto simp: f(2) word_sle_eq)
  show "NUL \<notin> set (name f)" if "\<forall>d\<in>set names. NUL \<notin> set d"
    using that d by (auto simp: f(1) dest: in_set_takeD)
qed

lemma partition_rank_cases:
  "partition_rank cutoff f = 0 \<or> partition_rank cutoff f = 1 \<or> partition_rank cutoff f = 2"
  by (simp add: partition_rank_def)

lemma qsort_Nil: "qsort cmp [] = []"
  by (simp add: qsort_def msort_with_tmp_Nil)

lemma sorted_listing:
  assumes names: "\<forall>d\<in>set names. NUL \<notin> set d"
    and entries: "entries = listed_entries names"
    and cap: "length (filter (\<lambda>f. partition_rank cutoff f \<noteq> 0) entries) \<le> MAX_FILES"
    and fits: "(\<forall>f\<in>set entries. order_num f \<noteq> 2147483647) \<or>
               (\<forall>f\<in>set entries. order_num f \<noteq> - 1)"
    and p: "p = sort_partitions (scan_directory cutoff names)"
  shows "mset (lower_files p @ unordered_files p @ upper_files p) =
         mset (take MAX_FILES (filter (\<lambda>f. partition_rank cutoff f = 0) entries) @
               filter (\<lambda>f. partition_rank cutoff f \<noteq> 0) entries)"
    and "sorted_wrt (listed_before cutoff) (lower_files p @ unordered_files p @ upper_files p)"
proof -
  define L where "L = take MAX_FILES (filter (\<lambda>f. partition_rank cutoff f = 0) entries)"
  define U where "U = filter (\<lambda>f. partition_rank cutoff f \<noteq> 0) entries"
  have arrays: "lower_files p = qsort compare_ordered_files L"
    "upper_files p = qsort compare_ordered_files U" "unordered_files p = []"
    using cap
    by (simp_all add: p sort_partitions_def scan_directory_arrays entries L_def U_def qsort_Nil)
  show "mset (lower_files p @ unordered_files p @ upper_files p) =
         mset (take MAX_FILES (filter (\<lambda>f. partition_rank cutoff f = 0) entries) @
               filter (\<lambda>f. partition_rank cutoff f \<noteq> 0) entries)"
    by (simp add: arrays mset_qsort L_def U_def)
  have L: "set L \<subseteq> set entries" "\<forall>f\<in>set L. partition_rank cutoff f = 0"
    unfolding L_def by (auto dest: in_set_takeD)
  have U: "set U \<subseteq> set entries" "\<forall>f\<in>set U. partition_rank cutoff f \<noteq> 0"
    unfolding U_def by auto
  have ok: "\<forall>f\<in>set entries. - 1 \<le> sint (order_num f) \<and> NUL \<notin> set (name f)"
    using listed_entries_facts names by (simp add: entries)
  have keyL: "sorted_wrt key_before (qsort compare_ordered_files L)"
    using ok fits L(1) by (intro sorted_qsort_entries) blast+
  have keyU: "sorted_wrt key_before (qsort compare_ordered_files U)"
    using ok fits U(1) by (intro sorted_qsort_entries) blast+
  have 1: "sorted_wrt (listed_before cutoff) (qsort compare_ordered_files L)"
    using keyL
  proof (rule sorted_wrt_mono_rel [rotated])
    fix x y
    assume "x \<in> set (qsort compare_ordered_files L)" "y \<in> set (qsort compare_ordered_files L)"
      and "key_before x y"
    with L(2) show "listed_before cutoff x y"
      by (simp add: set_qsort listed_before_def)
  qed
  have 2: "sorted_wrt (listed_before cutoff) (qsort compare_ordered_files U)"
    using keyU
  proof (rule sorted_wrt_mono_rel [rotated])
    fix x y
    assume x: "x \<in> set (qsort compare_ordered_files U)"
      and y: "y \<in> set (qsort compare_ordered_files U)"
      and k: "key_before x y"
    from x y U ok have r: "partition_rank cutoff x \<noteq> 0" "partition_rank cutoff y \<noteq> 0"
      "- 1 \<le> sint (order_num x)"
      by (auto simp: set_qsort)
    show "listed_before cutoff x y"
    proof (cases "partition_rank cutoff x \<le> partition_rank cutoff y")
      case True
      with k show ?thesis by (auto simp: listed_before_def)
    next
      case False
      with r(1,2) partition_rank_cases [of cutoff x] partition_rank_cases [of cutoff y]
      have "partition_rank cutoff x = 2" "partition_rank cutoff y = 1"
        by auto
      then have "order_num x \<noteq> - 1" "order_num y = - 1"
        by (auto simp: partition_rank_def split: if_splits)
      with k r(3) show ?thesis
        by (auto simp: key_before_def)
    qed
  qed
  have 3: "\<forall>x\<in>set (qsort compare_ordered_files L). \<forall>y\<in>set (qsort compare_ordered_files U).
      listed_before cutoff x y"
    using L(2) U(2) by (auto simp: set_qsort listed_before_def)
  show "sorted_wrt (listed_before cutoff) (lower_files p @ unordered_files p @ upper_files p)"
    using 1 2 3 by (simp add: arrays sorted_wrt_append)
qed

subsection \<open>The listing is determined by its order\<close>

lemma sorted_wrt_unique:
  assumes "mset xs = mset ys" and "sorted_wrt R xs" and "sorted_wrt R ys"
    and "\<forall>a\<in>set xs. \<forall>b\<in>set xs. R a b \<longrightarrow> R b a \<longrightarrow> a = b"
  shows "xs = ys"
  using assms
proof (induction xs arbitrary: ys)
  case Nil
  then show ?case by simp
next
  case (Cons x xs)
  from Cons.prems(1) obtain y ys' where ys: "ys = y # ys'"
    by (cases ys) auto
  have sets: "set (x # xs) = set (y # ys')"
    using Cons.prems(1) unfolding ys by (rule mset_eq_setD)
  have "x = y"
  proof (rule ccontr)
    assume ne: "x \<noteq> y"
    with sets have "x \<in> set ys'" and "y \<in> set xs"
      by auto
    with Cons.prems(2,3) have "R y x" and "R x y"
      by (simp_all add: ys)
    with Cons.prems(4) \<open>y \<in> set xs\<close> have "x = y"
      by simp
    with ne show False ..
  qed
  moreover from this Cons.prems(1) have "mset xs = mset ys'"
    by (simp add: ys)
  then have "xs = ys'"
    using Cons.prems(2,3,4) by (intro Cons.IH) (simp_all add: ys)
  ultimately show ?case
    by (simp add: ys)
qed

lemma listed_entries_bytesize:
  "f \<in> set (listed_entries names) \<Longrightarrow> bytesize f = of_nat (length (name f))"
  by (auto simp: listed_entries_def)

lemma key_before_antisym:
  assumes "NUL \<notin> set (name a)" and "NUL \<notin> set (name b)"
    and "key_before a b" and "key_before b a"
  shows "order_num a = order_num b \<and> name a = name b"
  using assms strcmp_antisym [of "name a" "name b"]
  by (auto simp: key_before_def)

lemma listed_before_antisym:
  assumes "\<forall>d\<in>set names. NUL \<notin> set d"
    and "a \<in> set (listed_entries names)" and "b \<in> set (listed_entries names)"
    and "listed_before cutoff a b" and "listed_before cutoff b a"
  shows "a = b"
proof -
  have "key_before a b" "key_before b a"
    using assms(4,5) by (auto simp: listed_before_def)
  then have "order_num a = order_num b \<and> name a = name b"
    using listed_entries_facts(2) [OF assms(2) assms(1)]
      listed_entries_facts(2) [OF assms(3) assms(1)]
    by (intro key_before_antisym)
  moreover have "bytesize a = of_nat (length (name a))" "bytesize b = of_nat (length (name b))"
    using assms(2,3) by (simp_all add: listed_entries_bytesize)
  ultimately show ?thesis
    by simp
qed

subsection \<open>The output of bundle mode\<close>

lemma initial_buffer_holds: "buffer_holds [] initial_bundle_state"
  by (simp add: buffer_holds_def initial_bundle_state_def)

lemma bundle_all_holds:
  assumes "\<forall>n. realloc_ok e n"
    and "files = lower_files p @ unordered_files p @ upper_files p"
    and "\<forall>f\<in>set files. \<forall>c. read_file_contents e dir (name f) = Inr c \<longrightarrow> NUL \<notin> set c"
    and "length (concat_readable e dir files) + 1 \<le> 2 ^ 63"
  shows "\<exists>st'. bundle_all e dir p = Some (read_diagnostics e dir files, Some st') \<and>
           buffer_holds (concat_readable e dir files) st'"
proof -
  let ?l = "lower_files p" and ?u = "unordered_files p" and ?h = "upper_files p"
  have len: "length (concat_readable e dir files) =
      length (concat_readable e dir ?l) + length (concat_readable e dir ?u) +
      length (concat_readable e dir ?h)"
    by (simp add: assms(2) concat_readable_append)
  have nul:
    "\<forall>f\<in>set ?l. \<forall>c. read_file_contents e dir (name f) = Inr c \<longrightarrow> NUL \<notin> set c"
    "\<forall>f\<in>set ?u. \<forall>c. read_file_contents e dir (name f) = Inr c \<longrightarrow> NUL \<notin> set c"
    "\<forall>f\<in>set ?h. \<forall>c. read_file_contents e dir (name f) = Inr c \<longrightarrow> NUL \<notin> set c"
    using assms(3) by (auto simp: assms(2))
  have bound: "length (concat_readable e dir ?l) + length (concat_readable e dir ?u) +
      length (concat_readable e dir ?h) + 1 \<le> 2 ^ 63"
    using assms(4) len by simp
  have "\<exists>st'. bundle_files e dir ?l ([], initial_bundle_state) =
             Some ([] @ read_diagnostics e dir ?l, Some st') \<and>
           buffer_holds ([] @ concat_readable e dir ?l) st' \<and> capacity_ok st'"
    by (rule bundle_files_holds [OF initial_buffer_holds initial_capacity_ok assms(1) nul(1)])
      (use bound in simp)
  then obtain st1 where 1:
    "bundle_files e dir ?l ([], initial_bundle_state) = Some (read_diagnostics e dir ?l, Some st1)"
    "buffer_holds (concat_readable e dir ?l) st1" "capacity_ok st1"
    by auto
  have "\<exists>st'. bundle_files e dir ?u (read_diagnostics e dir ?l, st1) =
             Some (read_diagnostics e dir ?l @ read_diagnostics e dir ?u, Some st') \<and>
           buffer_holds (concat_readable e dir ?l @ concat_readable e dir ?u) st' \<and>
           capacity_ok st'"
    by (rule bundle_files_holds [OF 1(2,3) assms(1) nul(2)]) (use bound in simp)
  then obtain st2 where 2:
    "bundle_files e dir ?u (read_diagnostics e dir ?l, st1) =
       Some (read_diagnostics e dir ?l @ read_diagnostics e dir ?u, Some st2)"
    "buffer_holds (concat_readable e dir ?l @ concat_readable e dir ?u) st2" "capacity_ok st2"
    by auto
  have "\<exists>st'. bundle_files e dir ?h
             (read_diagnostics e dir ?l @ read_diagnostics e dir ?u, st2) =
             Some ((read_diagnostics e dir ?l @ read_diagnostics e dir ?u) @
                   read_diagnostics e dir ?h, Some st') \<and>
           buffer_holds ((concat_readable e dir ?l @ concat_readable e dir ?u) @
                         concat_readable e dir ?h) st' \<and>
           capacity_ok st'"
    by (rule bundle_files_holds [OF 2(2,3) assms(1) nul(3)]) (use bound in simp)
  then obtain st3 where 3:
    "bundle_files e dir ?h (read_diagnostics e dir ?l @ read_diagnostics e dir ?u, st2) =
       Some ((read_diagnostics e dir ?l @ read_diagnostics e dir ?u) @
             read_diagnostics e dir ?h, Some st3)"
    "buffer_holds ((concat_readable e dir ?l @ concat_readable e dir ?u) @
                   concat_readable e dir ?h) st3"
    by auto
  have "bundle_all e dir p = Some (read_diagnostics e dir files, Some st3)"
    by (simp add: bundle_all_def 1(1) 2(1) 3(1) assms(2) read_diagnostics_append)
  moreover have "buffer_holds (concat_readable e dir files) st3"
    using 3(2) by (simp add: assms(2) concat_readable_append)
  ultimately show ?thesis by blast
qed

lemma read_file_contents_Inr_iff:
  "read_file_contents e dir nm = Inr c \<longleftrightarrow>
     (let path = take (PATH_MAX - 1) (dir @ ''/'' @ nm)
      in fopen_ok e path \<and> malloc_contents_ok e path \<and>
         (\<exists>n. stat_size e path = Some n \<and> n \<le> length (file_bytes e path) \<and>
              c = take n (file_bytes e path)))"
  by (auto simp: read_file_contents_def Let_def split: option.splits)

lemma main_bundle_holds:
  assumes "parse_arguments default_options args = Some opts" and "bundle_mode opts"
    and "readdir_names e dir = Some names" and "malloc_buffer_ok e" and "\<forall>n. realloc_ok e n"
    and "p = sort_partitions (scan_directory (cutoff_count opts) names)"
    and "files = lower_files p @ unordered_files p @ upper_files p"
    and "\<forall>f\<in>set files. \<forall>c. read_file_contents e dir (name f) = Inr c \<longrightarrow> NUL \<notin> set c"
    and "length (concat_readable e dir files) + 1 \<le> 2 ^ 63"
  shows "main e (prog # dir # args) =
         Some \<lparr>exit_status = EXIT_SUCCESS,
               stdout =
                 (if debugtext opts
                  then ''local start_time='' @ timer_expression @ ''\<newline>'' else []) @
                 concat_readable e dir files @ ''\<newline>'' @
                 (if debugtext opts
                  then ''local end_time='' @ timer_expression @ ''\<newline>'' @
                    ''export SCRIPTSORT_ELAPSED=$(($end_time - $start_time))\<newline>''
                  else []),
               stderr = read_diagnostics e dir files, opendir_called = True\<rparr>"
proof -
  from bundle_all_holds [OF assms(5,7,8,9)]
  obtain st' where st': "bundle_all e dir p = Some (read_diagnostics e dir files, Some st')"
    "buffer_holds (concat_readable e dir files) st'"
    by blast
  have "c_string (buffer st') = concat_readable e dir files"
    using st'(2) by (simp add: buffer_holds_def c_string_holds)
  with st'(1) assms(1-4) show ?thesis
    by (simp add: main_def assms(6) [symmetric])
qed

lemma scenario_sorted:
  "sort_partitions (scan_directory 50
     [''.'', ''ordered.52.last'', ''fn.b'', ''skip.tmp'', ''..'', ''ordered.01.first'', ''fn.a'']) =
   \<lparr>lower_files = [\<lparr>name = ''ordered.01.first'', order_num = 1, bytesize = 16\<rparr>],
    upper_files = [\<lparr>name = ''fn.a'', order_num = - 1, bytesize = 4\<rparr>,
                   \<lparr>name = ''fn.b'', order_num = - 1, bytesize = 4\<rparr>,
                   \<lparr>name = ''ordered.52.last'', order_num = 52, bytesize = 15\<rparr>],
    unordered_files = [], main_bytesize = 47\<rparr>"
  by (simp add: classify_eval scan_eval sort_eval word_eval)

text \<open>
  Claim C4 as stated fails: in the example directory every file can be read, and the
  output of bundle mode is the contents of the four files, each followed by one newline,
  and then one newline more, which \<^verbatim>\<open>printf("%s\n", buffer)\<close> adds.
\<close>

theorem C4_bundle_output_ends_with_extra_newline:
  "main scenario_env [''scriptsort'', ''scripts'', ''--bundle''] =
     Some \<lparr>exit_status = 0,
           stdout = ''# scripts/ordered.01.first\<newline># scripts/fn.a\<newline># scripts/fn.b\<newline># scripts/ordered.52.last\<newline>\<newline>'',
           stderr = [], opendir_called = True\<rparr>
   \<and> concat_readable scenario_env ''scripts''
       [\<lparr>name = ''ordered.01.first'', order_num = 1, bytesize = 16\<rparr>,
        \<lparr>name = ''fn.a'', order_num = - 1, bytesize = 4\<rparr>,
        \<lparr>name = ''fn.b'', order_num = - 1, bytesize = 4\<rparr>,
        \<lparr>name = ''ordered.52.last'', order_num = 52, bytesize = 15\<rparr>] =
     ''# scripts/ordered.01.first\<newline># scripts/fn.a\<newline># scripts/fn.b\<newline># scripts/ordered.52.last\<newline>''"
proof
  let ?files = "[\<lparr>name = ''ordered.01.first'', order_num = 1, bytesize = 16\<rparr>,
        \<lparr>name = ''fn.a'', order_num = - 1, bytesize = 4\<rparr>,
        \<lparr>name = ''fn.b'', order_num = - 1, bytesize = 4\<rparr>,
        \<lparr>name = ''ordered.52.last'', order_num = 52, bytesize = 15\<rparr>]"
  show c: "concat_readable scenario_env ''scripts'' ?files =
     ''# scripts/ordered.01.first\<newline># scripts/fn.a\<newline># scripts/fn.b\<newline># scripts/ordered.52.last\<newline>''"
    by (simp add: concat_readable_def read_file_contents_def PATH_MAX_def scenario_env_def)
  have d: "read_diagnostics scenario_env ''scripts'' ?files = []"
    by (simp add: read_diagnostics_def read_file_contents_def PATH_MAX_def scenario_env_def)
  have opts: "parse_arguments default_options [''--bundle''] =
      Some \<lparr>init = False, bundle_mode = True, debugtext = False, cutoff_count = 50\<rparr>"
    by (simp add: default_options_def ctype_eval wal_result_def)
  have "main scenario_env (''scriptsort'' # ''scripts'' # [''--bundle'']) =
         Some \<lparr>exit_status = EXIT_SUCCESS,
               stdout =
                 (if debugtext \<lparr>init = False, bundle_mode = True, debugtext = False,
                                 cutoff_count = 50\<rparr>
                  then ''local start_time='' @ timer_expression @ ''\<newline>'' else []) @
                 concat_readable scenario_env ''scripts'' ?files @ ''\<newline>'' @
                 (if debugtext \<lparr>init = False, bundle_mode = True, debugtext = False,
                                 cutoff_count = 50\<rparr>
                  then ''local end_time='' @ timer_expression @ ''\<newline>'' @
                    ''export SCRIPTSORT_ELAPSED=$(($end_time - $start_time))\<newline>''
                  else []),
               stderr = read_diagnostics scenario_env ''scripts'' ?files,
               opendir_called = True\<rparr>"
  proof (rule main_bundle_holds [OF opts])
    show "readdir_names scenario_env ''scripts'' =
      Some [''.'', ''ordered.52.last'', ''fn.b'', ''skip.tmp'', ''..'', ''ordered.01.first'',
            ''fn.a'']"
      by (simp add: scenario_env_def)
    show "\<forall>f\<in>set ?files. \<forall>c.
        read_file_contents scenario_env ''scripts'' (name f) = Inr c \<longrightarrow> NUL \<notin> set c"
      by (auto simp: read_file_contents_def PATH_MAX_def scenario_env_def NUL_def)
    show "length (concat_readable scenario_env ''scripts'' ?files) + 1 \<le> 2 ^ 63"
      by (simp add: c)
    show "?files =
      lower_files (sort_partitions (scan_directory 50
        [''.'', ''ordered.52.last'', ''fn.b'', ''skip.tmp'', ''..'', ''ordered.01.first'',
         ''fn.a''])) @
      unordered_files (sort_partitions (scan_directory 50
        [''.'', ''ordered.52.last'', ''fn.b'', ''skip.tmp'', ''..'', ''ordered.01.first'',
         ''fn.a''])) @
      upper_files (sort_partitions (scan_directory 50
        [''.'', ''ordered.52.last'', ''fn.b'', ''skip.tmp'', ''..'', ''ordered.01.first'',
         ''fn.a'']))"
      unfolding scenario_sorted by simp
  qed (simp_all add: scenario_env_def)
  then show "main scenario_env [''scriptsort'', ''scripts'', ''--bundle''] =
     Some \<lparr>exit_status = 0,
           stdout = ''# scripts/ordered.01.first\<newline># scripts/fn.a\<newline># scripts/fn.b\<newline># scripts/ordered.52.last\<newline>\<newline>'',
           stderr = [], opendir_called = True\<rparr>"
    by (simp add: c d EXIT_SUCCESS_def)
qed

lemma length_concat_readable_mset:
  assumes "mset xs = mset ys"
  shows "length (concat_readable e dir xs) = length (concat_readable e dir ys)"
proof -
  define g :: "FileEntry \<Rightarrow> nat" where "g = (\<lambda>f. length (case read_file_contents e dir (name f) of
      Inl d \<Rightarrow> [] | Inr contents \<Rightarrow> contents @ [CHR 0x0A]))"
  have "length (concat_readable e dir zs) = sum_mset (image_mset g (mset zs))" for zs
    by (induction zs) (simp_all add: concat_readable_def g_def)
  with assms show ?thesis by simp
qed

text \<open>
  Claim C4, amended. Let the run be in bundle mode, let the first \<^verbatim>\<open>malloc\<close> and every
  \<^verbatim>\<open>realloc\<close> succeed, let no readable file hold a NUL byte and let the output stay
  below \<open>2 ^ 63\<close> bytes. Let the names be C strings, let at most 1000 entries be outside
  the low partition (they share one array, claim C1), and let the largest order number,
  \<open>INT_MAX\<close>, not occur beside an entry without order number (the comparator overflows
  there, claim C6). The entries that the scan keeps are the first 1000 of the low partition
  and all the others. Then
  \<^item> the kept entries have a listing in the order of the output: low, unordered, high, and
    within a partition by order number and then by name;
  \<^item> for every such listing \<open>files\<close> (there is only one), the run ends with status 0 and
    its output is, for the entries of \<open>files\<close> in their order, the contents of each
    file that can be read followed by one newline, and after all of them one more newline
    (under \<^verbatim>\<open>--debug\<close> with one line before and two lines after); the messages are those
    of the files that cannot be read, in the same order.

  A file can be read exactly when \<^verbatim>\<open>fopen\<close>, \<^verbatim>\<open>stat\<close> and the \<^verbatim>\<open>malloc\<close> for its
  contents succeed and \<^verbatim>\<open>fread\<close> delivers the \<^verbatim>\<open>st_size\<close> bytes, which are then its
  contents; any other file contributes nothing.
\<close>

theorem C4_bundle_output:
  "(parse_arguments default_options args = Some opts \<and> bundle_mode opts \<and>
    readdir_names e dir = Some names \<and> malloc_buffer_ok e \<and> (\<forall>n. realloc_ok e n) \<and>
    (\<forall>d\<in>set names. NUL \<notin> set d) \<and> entries = listed_entries names \<and>
    length (filter (\<lambda>f. partition_rank (cutoff_count opts) f \<noteq> 0) entries) \<le> MAX_FILES \<and>
    ((\<forall>f\<in>set entries. order_num f \<noteq> 2147483647) \<or>
     (\<forall>f\<in>set entries. order_num f \<noteq> - 1)) \<and>
    kept = take MAX_FILES (filter (\<lambda>f. partition_rank (cutoff_count opts) f = 0) entries) @
           filter (\<lambda>f. partition_rank (cutoff_count opts) f \<noteq> 0) entries \<and>
    (\<forall>f\<in>set kept. \<forall>c. read_file_contents e dir (name f) = Inr c \<longrightarrow> NUL \<notin> set c) \<and>
    length (concat_readable e dir kept) + 1 \<le> 2 ^ 63 \<longrightarrow>
      (\<exists>fs. mset fs = mset kept \<and> sorted_wrt (listed_before (cutoff_count opts)) fs) \<and>
      (mset files = mset kept \<and> sorted_wrt (listed_before (cutoff_count opts)) files \<longrightarrow>
         main e (prog # dir # args) =
           Some \<lparr>exit_status = EXIT_SUCCESS,
                 stdout =
                   (if debugtext opts
                    then ''local start_time='' @ timer_expression @ ''\<newline>'' else []) @
                   concat_readable e dir files @ ''\<newline>'' @
                   (if debugtext opts
                    then ''local end_time='' @ timer_expression @ ''\<newline>'' @
                      ''export SCRIPTSORT_ELAPSED=$(($end_time - $start_time))\<newline>''
                    else []),
                 stderr = read_diagnostics e dir files, opendir_called = True\<rparr>))
   \<and> (read_file_contents e dir nm = Inr c \<longleftrightarrow>
        (let path = take (PATH_MAX - 1) (dir @ ''/'' @ nm)
         in fopen_ok e path \<and> malloc_contents_ok e path \<and>
            (\<exists>n. stat_size e path = Some n \<and> n \<le> length (file_bytes e path) \<and>
                 c = take n (file_bytes e path))))
   \<and> concat_readable e dir [] = []
   \<and> concat_readable e dir (f # fs) =
       (case read_file_contents e dir (name f) of
          Inl d \<Rightarrow> [] | Inr contents \<Rightarrow> contents @ ''\<newline>'') @ concat_readable e dir fs"
proof (intro conjI impI)
  assume a: "parse_arguments default_options args = Some opts \<and> bundle_mode opts \<and>
    readdir_names e dir = Some names \<and> malloc_buffer_ok e \<and> (\<forall>n. realloc_ok e n) \<and>
    (\<forall>d\<in>set names. NUL \<notin> set d) \<and> entries = listed_entries names \<and>
    length (filter (\<lambda>f. partition_rank (cutoff_count opts) f \<noteq> 0) entries) \<le> MAX_FILES \<and>
    ((\<forall>f\<in>set entries. order_num f \<noteq> 2147483647) \<or>
     (\<forall>f\<in>set entries. order_num f \<noteq> - 1)) \<and>
    kept = take MAX_FILES (filter (\<lambda>f. partition_rank (cutoff_count opts) f = 0) entries) @
           filter (\<lambda>f. partition_rank (cutoff_count opts) f \<noteq> 0) entries \<and>
    (\<forall>f\<in>set kept. \<forall>c. read_file_contents e dir (name f) = Inr c \<longrightarrow> NUL \<notin> set c) \<and>
    length (concat_readable e dir kept) + 1 \<le> 2 ^ 63"
  define p where "p = sort_partitions (scan_directory (cutoff_count opts) names)"
  define files0 where "files0 = lower_files p @ unordered_files p @ upper_files p"
  from a have names: "\<forall>d\<in>set names. NUL \<notin> set d" and entries: "entries = listed_entries names"
    and cap: "length (filter (\<lambda>f. partition_rank (cutoff_count opts) f \<noteq> 0) entries)
      \<le> MAX_FILES"
    and fits: "(\<forall>f\<in>set entries. order_num f \<noteq> 2147483647) \<or>
      (\<forall>f\<in>set entries. order_num f \<noteq> - 1)"
    and kept: "kept =
      take MAX_FILES (filter (\<lambda>f. partition_rank (cutoff_count opts) f = 0) entries) @
      filter (\<lambda>f. partition_rank (cutoff_count opts) f \<noteq> 0) entries"
    by blast+
  note listing = sorted_listing [OF names entries cap fits p_def, folded files0_def kept]
  then show "\<exists>fs. mset fs = mset kept \<and> sorted_wrt (listed_before (cutoff_count opts)) fs"
    by blast
  assume given: "mset files = mset kept \<and>
    sorted_wrt (listed_before (cutoff_count opts)) files"
  have sets: "set files = set kept"
    using given by (intro mset_eq_setD) blast
  have "set kept \<subseteq> set (listed_entries names)"
    unfolding kept entries by (auto dest: in_set_takeD)
  with sets have "\<forall>a\<in>set files. \<forall>b\<in>set files.
      listed_before (cutoff_count opts) a b \<longrightarrow> listed_before (cutoff_count opts) b a \<longrightarrow>
      a = b"
    using listed_before_antisym [OF names] by blast
  with given listing have same: "files = files0"
    by (intro sorted_wrt_unique [where R = "listed_before (cutoff_count opts)"]) simp_all
  from a have "\<forall>f\<in>set kept. \<forall>c.
      read_file_contents e dir (name f) = Inr c \<longrightarrow> NUL \<notin> set c"
    by blast
  with sets have nul: "\<forall>f\<in>set files. \<forall>c.
      read_file_contents e dir (name f) = Inr c \<longrightarrow> NUL \<notin> set c"
    by simp
  have "length (concat_readable e dir files) = length (concat_readable e dir kept)"
    using given by (intro length_concat_readable_mset) blast
  moreover from a have "length (concat_readable e dir kept) + 1 \<le> 2 ^ 63"
    by blast
  ultimately have len: "length (concat_readable e dir files) + 1 \<le> 2 ^ 63"
    by simp
  from a have run: "parse_arguments default_options args = Some opts" "bundle_mode opts"
    "readdir_names e dir = Some names" "malloc_buffer_ok e" "\<forall>n. realloc_ok e n"
    by blast+
  show "main e (prog # dir # args) =
           Some \<lparr>exit_status = EXIT_SUCCESS,
                 stdout =
                   (if debugtext opts
                    then ''local start_time='' @ timer_expression @ ''\<newline>'' else []) @
                   concat_readable e dir files @ ''\<newline>'' @
                   (if debugtext opts
                    then ''local end_time='' @ timer_expression @ ''\<newline>'' @
                      ''export SCRIPTSORT_ELAPSED=$(($end_time - $start_time))\<newline>''
                    else []),
                 stderr = read_diagnostics e dir files, opendir_called = True\<rparr>"
    by (rule main_bundle_holds [OF run p_def _ nul len]) (simp only: same files0_def)
next
  show "read_file_contents e dir nm = Inr c \<longleftrightarrow>
        (let path = take (PATH_MAX - 1) (dir @ ''/'' @ nm)
         in fopen_ok e path \<and> malloc_contents_ok e path \<and>
            (\<exists>n. stat_size e path = Some n \<and> n \<le> length (file_bytes e path) \<and>
                 c = take n (file_bytes e path)))"
    by (rule read_file_contents_Inr_iff)
next
  show "concat_readable e dir [] = []"
    by (simp add: concat_readable_def)
next
  show "concat_readable e dir (f # fs) =
       (case read_file_contents e dir (name f) of
          Inl d \<Rightarrow> [] | Inr contents \<Rightarrow> contents @ ''\<newline>'') @ concat_readable e dir fs"
    by (rule concat_readable_Cons)
qed

lemma unreadable_env_read:
  "read_file_contents unreadable_env ''scripts'' ''ordered.01.first'' =
     Inr ''# scripts/ordered.01.first''"
  "read_file_contents unreadable_env ''scripts'' ''fn.a'' = Inr ''# scripts/fn.a''"
  "read_file_contents unreadable_env ''scripts'' ''fn.b'' =
     Inl (Error_opening_file ''scripts/fn.b'')"
  "read_file_contents unreadable_env ''scripts'' ''ordered.52.last'' =
     Inr ''# scripts/ordered.52.last''"
  by (simp_all add: read_file_contents_def PATH_MAX_def unreadable_env_def scenario_env_def)

lemma scenario_listed:
  "listed_entries
     [''.'', ''ordered.52.last'', ''fn.b'', ''skip.tmp'', ''..'', ''ordered.01.first'', ''fn.a''] =
   [\<lparr>name = ''ordered.52.last'', order_num = 52, bytesize = 15\<rparr>,
    \<lparr>name = ''fn.b'', order_num = - 1, bytesize = 4\<rparr>,
    \<lparr>name = ''ordered.01.first'', order_num = 1, bytesize = 16\<rparr>,
    \<lparr>name = ''fn.a'', order_num = - 1, bytesize = 4\<rparr>]"
  by (simp add: listed_entries_def classify_eval MAX_FILENAME_def)

theorem C4_bundle_output_witness:
  "parse_arguments default_options [''--bundle''] =
     Some \<lparr>init = False, bundle_mode = True, debugtext = False, cutoff_count = 50\<rparr>
   \<and> readdir_names unreadable_env ''scripts'' =
     Some [''.'', ''ordered.52.last'', ''fn.b'', ''skip.tmp'', ''..'', ''ordered.01.first'',
           ''fn.a'']
   \<and> malloc_buffer_ok unreadable_env \<and> (\<forall>n. realloc_ok unreadable_env n)
   \<and> listed_entries
       [''.'', ''ordered.52.last'', ''fn.b'', ''skip.tmp'', ''..'', ''ordered.01.first'',
        ''fn.a''] =
     [\<lparr>name = ''ordered.52.last'', order_num = 52, bytesize = 15\<rparr>,
      \<lparr>name = ''fn.b'', order_num = - 1, bytesize = 4\<rparr>,
      \<lparr>name = ''ordered.01.first'', order_num = 1, bytesize = 16\<rparr>,
      \<lparr>name = ''fn.a'', order_num = - 1, bytesize = 4\<rparr>]
   \<and> read_file_contents unreadable_env ''scripts'' ''fn.b'' =
       Inl (Error_opening_file ''scripts/fn.b'')
   \<and> mset [\<lparr>name = ''ordered.01.first'', order_num = 1, bytesize = 16\<rparr>,
            \<lparr>name = ''fn.a'', order_num = - 1, bytesize = 4\<rparr>,
            \<lparr>name = ''fn.b'', order_num = - 1, bytesize = 4\<rparr>,
            \<lparr>name = ''ordered.52.last'', order_num = 52, bytesize = 15\<rparr>] =
       mset [\<lparr>name = ''ordered.01.first'', order_num = 1, bytesize = 16\<rparr>,
             \<lparr>name = ''ordered.52.last'', order_num = 52, bytesize = 15\<rparr>,
             \<lparr>name = ''fn.b'', order_num = - 1, bytesize = 4\<rparr>,
             \<lparr>name = ''fn.a'', order_num = - 1, bytesize = 4\<rparr>]
   \<and> sorted_wrt (listed_before 50)
        [\<lparr>name = ''ordered.01.first'', order_num = 1, bytesize = 16\<rparr>,
         \<lparr>name = ''fn.a'', order_num = - 1, bytesize = 4\<rparr>,
         \<lparr>name = ''fn.b'', order_num = - 1, bytesize = 4\<rparr>,
         \<lparr>name = ''ordered.52.last'', order_num = 52, bytesize = 15\<rparr>]
   \<and> main unreadable_env [''scriptsort'', ''scripts'', ''--bundle''] =
     Some \<lparr>exit_status = 0,
           stdout = ''# scripts/ordered.01.first\<newline># scripts/fn.a\<newline># scripts/ordered.52.last\<newline>\<newline>'',
           stderr = [Error_opening_file ''scripts/fn.b''], opendir_called = True\<rparr>"
proof -
  let ?names = "[''.'', ''ordered.52.last'', ''fn.b'', ''skip.tmp'', ''..'', ''ordered.01.first'',
           ''fn.a'']"
  let ?opts = "\<lparr>init = False, bundle_mode = True, debugtext = False, cutoff_count = 50\<rparr>"
  let ?p = "\<lparr>lower_files = [\<lparr>name = ''ordered.01.first'', order_num = 1, bytesize = 16\<rparr>],
      upper_files = [\<lparr>name = ''fn.a'', order_num = - 1, bytesize = 4\<rparr>,
                     \<lparr>name = ''fn.b'', order_num = - 1, bytesize = 4\<rparr>,
                     \<lparr>name = ''ordered.52.last'', order_num = 52, bytesize = 15\<rparr>],
      unordered_files = [], main_bytesize = 47\<rparr>"
  let ?entries = "[\<lparr>name = ''ordered.52.last'', order_num = 52, bytesize = 15\<rparr>,
      \<lparr>name = ''fn.b'', order_num = - 1, bytesize = 4\<rparr>,
      \<lparr>name = ''ordered.01.first'', order_num = 1, bytesize = 16\<rparr>,
      \<lparr>name = ''fn.a'', order_num = - 1, bytesize = 4\<rparr>]"
  let ?kept = "[\<lparr>name = ''ordered.01.first'', order_num = 1, bytesize = 16\<rparr>,
      \<lparr>name = ''ordered.52.last'', order_num = 52, bytesize = 15\<rparr>,
      \<lparr>name = ''fn.b'', order_num = - 1, bytesize = 4\<rparr>,
      \<lparr>name = ''fn.a'', order_num = - 1, bytesize = 4\<rparr>]"
  let ?files = "[\<lparr>name = ''ordered.01.first'', order_num = 1, bytesize = 16\<rparr>,
        \<lparr>name = ''fn.a'', order_num = - 1, bytesize = 4\<rparr>,
        \<lparr>name = ''fn.b'', order_num = - 1, bytesize = 4\<rparr>,
        \<lparr>name = ''ordered.52.last'', order_num = 52, bytesize = 15\<rparr>]"
  have opts: "parse_arguments default_options [''--bundle''] = Some ?opts"
    by (simp add: default_options_def ctype_eval wal_result_def)
  have bm: "bundle_mode ?opts"
    by simp
  have env: "readdir_names unreadable_env ''scripts'' = Some ?names"
    "malloc_buffer_ok unreadable_env" "\<forall>n. realloc_ok unreadable_env n"
    by (simp_all add: unreadable_env_def scenario_env_def)
  have names: "\<forall>d\<in>set ?names. NUL \<notin> set d"
    by (simp add: NUL_def)
  have entries: "?entries = listed_entries ?names"
    by (simp only: scenario_listed)
  have cap: "length (filter (\<lambda>f. partition_rank (cutoff_count ?opts) f \<noteq> 0) ?entries)
      \<le> MAX_FILES"
    by (simp add: partition_rank_def MAX_FILES_def)
  have fits: "(\<forall>f\<in>set ?entries. order_num f \<noteq> 2147483647) \<or>
      (\<forall>f\<in>set ?entries. order_num f \<noteq> - 1)"
    by simp
  have kept: "?kept =
      take MAX_FILES (filter (\<lambda>f. partition_rank (cutoff_count ?opts) f = 0) ?entries) @
      filter (\<lambda>f. partition_rank (cutoff_count ?opts) f \<noteq> 0) ?entries"
    by (simp add: partition_rank_def MAX_FILES_def)
  have nul: "\<forall>f\<in>set ?kept. \<forall>c.
      read_file_contents unreadable_env ''scripts'' (name f) = Inr c \<longrightarrow> NUL \<notin> set c"
    by (auto simp: unreadable_env_read NUL_def)
  have len: "length (concat_readable unreadable_env ''scripts'' ?kept) + 1 \<le> 2 ^ 63"
    by (simp add: concat_readable_def unreadable_env_read)
  have perm: "mset ?files = mset ?kept"
    by simp
  have sorted: "sorted_wrt (listed_before (cutoff_count ?opts)) ?files"
    by (simp add: listed_before_def key_before_def partition_rank_def)
  have c: "concat_readable unreadable_env ''scripts'' ?files =
     ''# scripts/ordered.01.first\<newline># scripts/fn.a\<newline># scripts/ordered.52.last\<newline>''"
    by (simp add: concat_readable_def unreadable_env_read)
  have d: "read_diagnostics unreadable_env ''scripts'' ?files =
     [Error_opening_file ''scripts/fn.b'']"
    by (simp add: read_diagnostics_def unreadable_env_read)
  have "main unreadable_env (''scriptsort'' # ''scripts'' # [''--bundle'']) =
        Some \<lparr>exit_status = EXIT_SUCCESS,
              stdout =
                (if debugtext ?opts
                 then ''local start_time='' @ timer_expression @ ''\<newline>'' else []) @
                concat_readable unreadable_env ''scripts'' ?files @ ''\<newline>'' @
                (if debugtext ?opts
                 then ''local end_time='' @ timer_expression @ ''\<newline>'' @
                   ''export SCRIPTSORT_ELAPSED=$(($end_time - $start_time))\<newline>''
                 else []),
              stderr = read_diagnostics unreadable_env ''scripts'' ?files,
              opendir_called = True\<rparr>"
    by (rule C4_bundle_output [THEN conjunct1, rule_format, THEN conjunct2, rule_format,
          where names = ?names and entries = ?entries and kept = ?kept])
      (intro conjI opts bm env names entries cap fits kept nul len perm sorted)+
  then have out: "main unreadable_env [''scriptsort'', ''scripts'', ''--bundle''] =
     Some \<lparr>exit_status = 0,
           stdout = ''# scripts/ordered.01.first\<newline># scripts/fn.a\<newline># scripts/ordered.52.last\<newline>\<newline>'',
           stderr = [Error_opening_file ''scripts/fn.b''], opendir_called = True\<rparr>"
    by (simp add: c d EXIT_SUCCESS_def)
  from sorted have sorted': "sorted_wrt (listed_before 50) ?files"
    by simp
  show ?thesis
    by (intro conjI opts env scenario_listed unreadable_env_read(3) perm sorted' out)
qed

subsection \<open>Allocation failures\<close>









lemma bundle_flag_parsed:
  "parse_arguments default_options [''--bundle''] =
     Some \<lparr>init = False, bundle_mode = True, debugtext = False, cutoff_count = 50\<rparr>"
  by (simp add: default_options_def ctype_eval wal_result_def)



subsection \<open>The output of list mode\<close>

lemma length_qsort_merge: "length (qsort_merge cmp xs ys) = length xs + length ys"
  by (induction cmp xs ys rule: qsort_merge.induct) simp_all

lemma length_msort_with_tmp: "length (msort_with_tmp cmp xs) = length xs"
proof (induction cmp xs rule: msort_with_tmp.induct)
  case (1 cmp b)
  show ?case
  proof (cases "length b \<le> 1")
    case True
    then show ?thesis by (simp add: msort_with_tmp.simps)
  next
    case False
    with 1 show ?thesis
      by (subst msort_with_tmp.simps) (simp add: length_qsort_merge)
  qed
qed

lemma length_qsort: "length (qsort cmp xs) = length xs"
  by (simp add: qsort_def length_msort_with_tmp)

text \<open>
  Claim C3 says that list mode prints the entries without an order number after those
  with a number below the cutoff and before those with a number at or above it, and loses
  none while each of the three groups has at most 1000 entries. Two runs of the program
  differ from that.
  \<^item> For the directory with \<^verbatim>\<open>ordered.2147483647\<close> and \<^verbatim>\<open>fn.a\<close>, listed in this
    order, the output is \<^verbatim>\<open>ordered.2147483647\<close> and then \<^verbatim>\<open>fn.a\<close>: both entries are
    in \<^verbatim>\<open>upper_files\<close>, and the comparator reports the first to sort before the second.
  \<^item> For every directory and cutoff the three sorted arrays together hold at most 2000
    entries, because \<^verbatim>\<open>unordered_files\<close> stays empty: of a directory with 1000 entries
    without order number and one entry with a number at or above the cutoff, one entry is
    not printed.
\<close>

theorem C3_list_output_order_and_loss:
  "main largest_number_env [''scriptsort'', ''scripts''] =
     Some \<lparr>exit_status = 0, stdout = ''ordered.2147483647\<newline>fn.a\<newline>'', stderr = [],
           opendir_called = True\<rparr>
   \<and> length (lower_files (sort_partitions (scan_directory cutoff names)) @
             unordered_files (sort_partitions (scan_directory cutoff names)) @
             upper_files (sort_partitions (scan_directory cutoff names))) \<le> 2000"
proof
  show "main largest_number_env [''scriptsort'', ''scripts''] =
     Some \<lparr>exit_status = 0, stdout = ''ordered.2147483647\<newline>fn.a\<newline>'', stderr = [],
           opendir_called = True\<rparr>"
    by (simp add: main_def largest_number_env_def scenario_env_def default_options_def
        classify_eval scan_eval sort_eval word_eval append_names_def EXIT_SUCCESS_def)
  have "length (lower_files (scan_directory cutoff names)) \<le> 1000"
    "length (upper_files (scan_directory cutoff names)) \<le> 1000"
    "unordered_files (scan_directory cutoff names) = []"
    using foldl_scan_length [of empty_partitions cutoff names]
    by (simp_all add: scan_directory_def foldl_scan_unordered empty_partitions_def MAX_FILES_def)
  then show "length (lower_files (sort_partitions (scan_directory cutoff names)) @
             unordered_files (sort_partitions (scan_directory cutoff names)) @
             upper_files (sort_partitions (scan_directory cutoff names))) \<le> 2000"
    by (simp add: sort_partitions_def length_qsort)
qed

subsection \<open>A NUL byte in a file\<close>

lemma replicate_numeral_Cons: "replicate (numeral k) x = x # replicate (pred_numeral k) x"
  by (simp add: numeral_eq_Suc)

lemma nul_env_read:
  "read_file_contents nul_env ''scripts'' ''fn.a'' = Inr [CHR ''a'', CHR 0x00, CHR ''b'']"
  "read_file_contents nul_env ''scripts'' ''fn.b'' = Inr [CHR ''a'', CHR 0x00, CHR ''b'']"
  by (simp_all add: read_file_contents_def PATH_MAX_def nul_env_def scenario_env_def)

lemma nul_env_bundle:
  "bundle_files nul_env ''scripts'' [\<lparr>name = ''fn.a'', order_num = - 1, bytesize = 4\<rparr>,
      \<lparr>name = ''fn.b'', order_num = - 1, bytesize = 4\<rparr>] ([], initial_bundle_state) =
   Some ([], Some \<lparr>buffer = [Some CHR ''a'', Some CHR 0x00, None, Some CHR 0x0A,
                             Some CHR ''a'', Some CHR 0x00, None, Some CHR 0x0A, Some CHR 0x00],
                   buffer_capacity = 4096, current_size = 8\<rparr>)"
  by (simp add: nul_env_read initial_bundle_state_def ensure_buffer_capacity_def
      INITIAL_BUFFER_SIZE_def SIZE_MODULUS_def strcat_at_def poke_def NUL_def
      replicate_numeral_Cons)

lemma nul_env_sorted:
  "sort_partitions (scan_directory 50 [''fn.a'', ''fn.b'']) =
   \<lparr>lower_files = [],
    upper_files = [\<lparr>name = ''fn.a'', order_num = - 1, bytesize = 4\<rparr>,
                   \<lparr>name = ''fn.b'', order_num = - 1, bytesize = 4\<rparr>],
    unordered_files = [], main_bytesize = 12\<rparr>"
  by (simp add: classify_eval scan_eval sort_eval word_eval)

lemma main_bundle_ends:
  assumes "parse_arguments default_options args = Some opts" and "bundle_mode opts"
    and "readdir_names e dir = Some names" and "malloc_buffer_ok e"
    and "bundle_all e dir (sort_partitions (scan_directory (cutoff_count opts) names)) =
         Some (errs, Some st)"
  shows "main e (prog # dir # args) =
         Some \<lparr>exit_status = EXIT_SUCCESS,
               stdout =
                 (if debugtext opts
                  then ''local start_time='' @ timer_expression @ ''\<newline>'' else []) @
                 c_string (buffer st) @ ''\<newline>'' @
                 (if debugtext opts
                  then ''local end_time='' @ timer_expression @ ''\<newline>'' @
                    ''export SCRIPTSORT_ELAPSED=$(($end_time - $start_time))\<newline>''
                  else []),
               stderr = errs, opendir_called = True\<rparr>"
  using assms by (simp add: main_def)

text \<open>
  The buffer is a C string: \<^verbatim>\<open>strcat\<close> copies a file up to its first NUL byte, the bytes
  counted after it are never written, and \<^verbatim>\<open>printf("%s\n", buffer)\<close> stops at that NUL.
  Of two files that hold \<^verbatim>\<open>a\<close>, NUL, \<^verbatim>\<open>b\<close> the output is the \<^verbatim>\<open>a\<close> of the first and
  the final newline.
\<close>

lemma bundle_output_cut_at_NUL:
  "main nul_env [''scriptsort'', ''scripts'', ''--bundle''] =
     Some \<lparr>exit_status = 0, stdout = ''a\<newline>'', stderr = [], opendir_called = True\<rparr>"
proof -
  have "bundle_all nul_env ''scripts''
      (sort_partitions (scan_directory
        (cutoff_count \<lparr>init = False, bundle_mode = True, debugtext = False, cutoff_count = 50\<rparr>)
        [''fn.a'', ''fn.b''])) =
      Some ([], Some \<lparr>buffer = [Some CHR ''a'', Some CHR 0x00, None, Some CHR 0x0A,
                             Some CHR ''a'', Some CHR 0x00, None, Some CHR 0x0A, Some CHR 0x00],
                      buffer_capacity = 4096, current_size = 8\<rparr>)"
    by (simp add: nul_env_sorted bundle_all_def nul_env_bundle del: bundle_files.simps(2)
        cong del: option.case_cong_weak)
  from main_bundle_ends [OF bundle_flag_parsed _ _ _ this, of "''scriptsort''"]
  show ?thesis
    by (simp add: nul_env_def scenario_env_def c_string_def NUL_def EXIT_SUCCESS_def)
qed

end
